theory Spec2Isabelle
  imports Main "HOL-Library.AList"
begin

unbundle bit_operations_syntax

section \<open>River service: a shallow embedding of \<open>fabric/river/service.py\<close>\<close>

subsection \<open>Python values and exceptions\<close>

text \<open>
  The handlers receive untyped Python objects. The values that matter here are integers
  (unbounded, hence \<open>int\<close>), \<open>None\<close>, strings and lists. \<open>hasattr(v, "__iter__")\<close>
  holds for lists and strings and fails for integers and \<open>None\<close>; iterating a string
  yields its one-character substrings.
\<close>

datatype pyval = PyInt int | PyNone | PyStr string | PyList "pyval list"

datatype error = TypeError | KeyError | OSError

fun has_iter :: "pyval \<Rightarrow> bool" where
  "has_iter (PyList xs) = True"
| "has_iter (PyStr s) = True"
| "has_iter (PyInt n) = False"
| "has_iter PyNone = False"

fun iter_items :: "pyval \<Rightarrow> pyval list" where
  "iter_items (PyList xs) = xs"
| "iter_items (PyStr s) = map (\<lambda>c. PyStr [c]) s"
| "iter_items v = []"

text \<open>\<open>bits & m\<close> for an integer mask \<open>m\<close>: defined on integers only, a \<open>TypeError\<close> otherwise.\<close>

fun py_and :: "pyval \<Rightarrow> int \<Rightarrow> error + int" where
  "py_and (PyInt b) m = Inr (b AND m)"
| "py_and v m = Inl TypeError"

subsection \<open>Bitfield codec: \<open>_decode_bitfields\<close>\<close>

text \<open>
  The inner loop \<open>for i in range(32): if bits & (1 << i): tags.add(i)\<close>, over the
  remaining indices of the range, and the outer loop \<open>for bits in bitfields\<close>. The
  Python set \<open>tags\<close> is a set of naturals (the indices come from \<open>range(32)\<close>).
\<close>

fun scan_bits :: "pyval \<Rightarrow> nat list \<Rightarrow> nat set \<Rightarrow> error + nat set" where
  "scan_bits bits [] tags = Inr tags"
| "scan_bits bits (i # is) tags =
     (case py_and bits (push_bit i 1) of
        Inl e \<Rightarrow> Inl e
      | Inr v \<Rightarrow> scan_bits bits is (if v \<noteq> 0 then insert i tags else tags))"

fun scan_words :: "pyval list \<Rightarrow> nat set \<Rightarrow> error + nat set" where
  "scan_words [] tags = Inr tags"
| "scan_words (bits # rest) tags =
     (case scan_bits bits [0..<32] tags of
        Inl e \<Rightarrow> Inl e
      | Inr tags' \<Rightarrow> scan_words rest tags')"

definition decode_bitfields :: "pyval \<Rightarrow> error + nat list" where
  "decode_bitfields bitfields =
     (let bitfields' = (if \<not> has_iter bitfields then [bitfields] else iter_items bitfields)
      in case scan_words bitfields' {} of
           Inl e \<Rightarrow> Inl e
         | Inr tags \<Rightarrow> Inr (sorted_list_of_set tags))"

subsection \<open>Objects of the session\<close>

text \<open>
  A proxy is identified by the request that created it: \<open>registry.bind(name, iface, version)\<close>,
  \<open>get_river_seat_status(seat)\<close>, \<open>get_river_output_status(output)\<close>, or the
  \<open>run_command\<close> request (numbered in order of issue).
\<close>

datatype proxy =
    Bound nat string nat
  | SeatStatus proxy
  | OutputStatus proxy
  | CommandCallback nat

text \<open>The dataclass \<open>OutputInfo\<close>.\<close>

record output_info =
  name :: nat
  "output" :: proxy
  status :: "proxy option"
  tags_view :: "nat list"
  tags_focused :: "nat list"
  tags_urgent :: "nat list"

text \<open>
  Calls handed to \<open>idle_add\<close>, to be run once on the main thread, and what they emit there.
  A signal detail \<open>event::view_tags\<close> is \<open>Detail ''view_tags''\<close>, and the per-output detail
  \<open>event::view_tags::{output_id}\<close> is \<open>DetailFor ''view_tags'' output_id\<close>.
\<close>

datatype idle_call =
    Emit_output_removed nat
  | Emit_view_tags nat "nat list"
  | Emit_focused_tags nat "nat list"
  | Emit_urgent_tags nat "nat list"
  | Emit_active_window string
  | Set_ready
  | Callback nat bool "string option" "string option"

datatype river_event = RiverEvent string "pyval list" "nat option"

datatype detail = Detail string | DetailFor string nat

datatype signal =
    Emit detail river_event
  | EmitTags detail "nat list"
  | Notify string
  | Ready_signal

text \<open>The dictionary \<open>result\<close> of one \<open>run_command\<close> call; its closure also holds the callback.\<close>

record command_result =
  stdout :: "string option"
  stderr :: "string option"
  success :: "bool option"

type_synonym invocation = "command_result \<times> nat option"

datatype request = AddArgument string | RunCommand proxy

text \<open>
  What \<open>run_command\<close> returns: \<open>True\<close>, a string or \<open>None\<close>. The external process either
  exits with a return code, its standard output and its standard error, or cannot be started
  at all (an \<open>OSError\<close> such as \<open>FileNotFoundError\<close>).
\<close>

datatype ret = RBool bool | RStr string | RNone

datatype proc_outcome = Exited int string string | SpawnFailed

text \<open>
  The whole state: the attributes of the \<open>River\<close> object, the dictionary \<open>state\<close> of the
  connection task (prefix \<open>st_\<close>), the \<open>OutputInfo\<close> objects by address (both \<open>outputs\<close>
  dictionaries hold addresses, since they share the objects), the registered listeners, and
  the environment: the queue of \<open>idle_add\<close>, the signals emitted, the callbacks called, the
  requests sent on the control interface, the flushes of the display and the processes run.
  A dictionary is an association list in insertion order.
\<close>

record world =
  ready :: bool
  active_window_title :: string
  outputs :: "(nat \<times> nat) list"
  river_status_mgr :: "proxy option"
  river_control :: "proxy option"
  seat :: "proxy option"
  seat_status :: "proxy option"
  display :: bool
  st_outputs :: "(nat \<times> nat) list"
  st_river_status_mgr :: "proxy option"
  st_river_control :: "proxy option"
  st_seat :: "proxy option"
  st_seat_status :: "proxy option"
  heap :: "nat \<rightharpoonup> output_info"
  next_ref :: nat
  status_listeners :: "nat list"
  seat_listener :: bool
  invocations :: "invocation list"
  idle_queue :: "idle_call list"
  signals :: "signal list"
  callback_calls :: "(nat \<times> bool \<times> string option \<times> string option) list"
  control_requests :: "request list"
  flushes :: nat
  procs :: "string list list"

text \<open>\<open>River.__init__\<close>: the attributes as set there, nothing else allocated or sent yet.\<close>

definition init :: world where
  "init = \<lparr> ready = False, active_window_title = [], outputs = [],
     river_status_mgr = None, river_control = None, seat = None, seat_status = None,
     display = False,
     st_outputs = [], st_river_status_mgr = None, st_river_control = None, st_seat = None,
     st_seat_status = None,
     heap = Map.empty, next_ref = 0, status_listeners = [], seat_listener = False,
     invocations = [], idle_queue = [], signals = [], callback_calls = [],
     control_requests = [], flushes = 0, procs = [] \<rparr>"

definition idle_add :: "idle_call \<Rightarrow> world \<Rightarrow> world" where
  "idle_add c w = w\<lparr>idle_queue := idle_queue w @ [c]\<rparr>"

subsection \<open>Registry discovery: \<open>handle_global\<close>, \<open>handle_global_remove\<close>\<close>

definition handle_global :: "nat \<Rightarrow> string \<Rightarrow> nat \<Rightarrow> world \<Rightarrow> world" where
  "handle_global nm iface version w =
     (if iface = ''zriver_status_manager_v1'' then
        w\<lparr>st_river_status_mgr := Some (Bound nm iface version)\<rparr>
      else if iface = ''zriver_control_v1'' then
        w\<lparr>st_river_control := Some (Bound nm iface version)\<rparr>
      else if iface = ''wl_output'' then
        w\<lparr>heap := (heap w)(next_ref w \<mapsto>
              \<lparr>name = nm, output = Bound nm iface version, status = None,
               tags_view = [], tags_focused = [], tags_urgent = []\<rparr>),
          next_ref := Suc (next_ref w),
          st_outputs := AList.update nm (next_ref w) (st_outputs w)\<rparr>
      else if iface = ''wl_seat'' then
        w\<lparr>st_seat := Some (Bound nm iface version)\<rparr>
      else w)"

definition handle_global_remove :: "nat \<Rightarrow> world \<Rightarrow> world" where
  "handle_global_remove nm w =
     (if map_of (st_outputs w) nm \<noteq> None then
        idle_add (Emit_output_removed nm) (w\<lparr>st_outputs := AList.delete nm (st_outputs w)\<rparr>)
      else w)"

subsection \<open>Status listeners\<close>

definition focused_view_handler :: "string \<Rightarrow> world \<Rightarrow> world" where
  "focused_view_handler title w =
     idle_add (Emit_active_window title) (w\<lparr>active_window_title := title\<rparr>)"

text \<open>
  The three handler factories. Each decodes first (a \<open>TypeError\<close> leaves the state as it
  was), then looks the record up in \<open>state["outputs"]\<close> (a \<open>KeyError\<close> when the output is
  gone), assigns one field of that object and queues the emission.
\<close>

definition make_view_tags_handler :: "nat \<Rightarrow> pyval \<Rightarrow> world \<Rightarrow> error + world" where
  "make_view_tags_handler output_id tags w =
     (case decode_bitfields tags of
        Inl e \<Rightarrow> Inl e
      | Inr decoded \<Rightarrow>
          (case map_of (st_outputs w) output_id of
             None \<Rightarrow> Inl KeyError
           | Some r \<Rightarrow>
               Inr (idle_add (Emit_view_tags output_id decoded)
                 (w\<lparr>heap := (heap w)(r := map_option (\<lambda>info. info\<lparr>tags_view := decoded\<rparr>)
                                           (heap w r))\<rparr>))))"

definition make_focused_tags_handler :: "nat \<Rightarrow> pyval \<Rightarrow> world \<Rightarrow> error + world" where
  "make_focused_tags_handler output_id tags w =
     (case decode_bitfields tags of
        Inl e \<Rightarrow> Inl e
      | Inr decoded \<Rightarrow>
          (case map_of (st_outputs w) output_id of
             None \<Rightarrow> Inl KeyError
           | Some r \<Rightarrow>
               Inr (idle_add (Emit_focused_tags output_id decoded)
                 (w\<lparr>heap := (heap w)(r := map_option (\<lambda>info. info\<lparr>tags_focused := decoded\<rparr>)
                                           (heap w r))\<rparr>))))"

definition make_urgent_tags_handler :: "nat \<Rightarrow> pyval \<Rightarrow> world \<Rightarrow> error + world" where
  "make_urgent_tags_handler output_id tags w =
     (case decode_bitfields tags of
        Inl e \<Rightarrow> Inl e
      | Inr decoded \<Rightarrow>
          (case map_of (st_outputs w) output_id of
             None \<Rightarrow> Inl KeyError
           | Some r \<Rightarrow>
               Inr (idle_add (Emit_urgent_tags output_id decoded)
                 (w\<lparr>heap := (heap w)(r := map_option (\<lambda>info. info\<lparr>tags_urgent := decoded\<rparr>)
                                           (heap w r))\<rparr>))))"

subsection \<open>Command session: \<open>run_command\<close> and its completion handlers\<close>

definition handle_success :: "string \<Rightarrow> invocation \<Rightarrow> world \<Rightarrow> invocation \<times> world" where
  "handle_success out iv w =
     (let res = (fst iv)\<lparr>stdout := Some out, success := Some True\<rparr>
      in ((res, snd iv),
          (case snd iv of
             None \<Rightarrow> w
           | Some cb \<Rightarrow> idle_add (Callback cb True (Some out) None) w)))"

definition handle_failure :: "string \<Rightarrow> invocation \<Rightarrow> world \<Rightarrow> invocation \<times> world" where
  "handle_failure failure_message iv w =
     (let res = (fst iv)\<lparr>stderr := Some failure_message, success := Some False\<rparr>
      in ((res, snd iv),
          (case snd iv of
             None \<Rightarrow> w
           | Some cb \<Rightarrow> idle_add (Callback cb False None (Some failure_message)) w)))"

text \<open>
  \<open>str.strip()\<close>: the characters below 256 that Python counts as whitespace are
  9 to 13, 28 to 32, 133 and 160.
\<close>

definition py_isspace :: "char \<Rightarrow> bool" where
  "py_isspace c = (let n = (of_char c :: nat)
                   in (9 \<le> n \<and> n \<le> 13) \<or> (28 \<le> n \<and> n \<le> 32) \<or> n = 133 \<or> n = 160)"

definition py_strip :: "string \<Rightarrow> string" where
  "py_strip s = rev (dropWhile py_isspace (rev (dropWhile py_isspace s)))"

text \<open>
  \<open>_run_command_fallback\<close>. \<open>subprocess.run(..., check=True)\<close> raises
  \<open>CalledProcessError\<close> exactly when the return code is not zero, and only that exception
  is caught. The behaviour of the external program is the parameter \<open>run\<close>. The arguments
  are strings already (\<open>str\<close> of a string is that string).
\<close>

definition run_command_fallback ::
  "(string list \<Rightarrow> proc_outcome) \<Rightarrow> string \<Rightarrow> string list \<Rightarrow> world \<Rightarrow> (error + ret) \<times> world" where
  "run_command_fallback run command args w =
     (let cmd = [''riverctl'', command] @ args;
          w' = w\<lparr>procs := procs w @ [cmd]\<rparr>
      in case run cmd of
           Exited rc out err \<Rightarrow>
             (if rc \<noteq> 0 then (Inr RNone, w') else (Inr (RStr (py_strip out)), w'))
         | SpawnFailed \<Rightarrow> (Inl OSError, w'))"

definition run_command ::
  "(string list \<Rightarrow> proc_outcome) \<Rightarrow> string \<Rightarrow> string list \<Rightarrow> nat option \<Rightarrow> world
     \<Rightarrow> (error + ret) \<times> world" where
  "run_command run command args cb w =
     (case (river_control w, seat w) of
        (Some ctl, Some st) \<Rightarrow>
          (Inr (RBool True),
           w\<lparr>control_requests := control_requests w
                @ AddArgument command # map AddArgument args @ [RunCommand st],
             invocations := invocations w
                @ [(\<lparr>stdout = None, stderr = None, success = None\<rparr>, cb)],
             flushes := (if display w then Suc (flushes w) else flushes w)\<rparr>)
      | _ \<Rightarrow> run_command_fallback run command args w)"

subsection \<open>Dispatching wire events\<close>

text \<open>
  An event reaches a handler only when a dispatcher was registered on its object; the
  registry's two handlers always are. \<open>Success\<close> and \<open>Failure\<close> carry the number of the
  completion object they arrive on.
\<close>

datatype event =
    Global nat string nat
  | GlobalRemove nat
  | FocusedView string
  | ViewTags nat pyval
  | FocusedTags nat pyval
  | UrgentTags nat pyval
  | Success nat string
  | Failure nat string

fun dispatch :: "event \<Rightarrow> world \<Rightarrow> error + world" where
  "dispatch (Global nm iface version) w = Inr (handle_global nm iface version w)"
| "dispatch (GlobalRemove nm) w = Inr (handle_global_remove nm w)"
| "dispatch (FocusedView title) w =
     (if seat_listener w then Inr (focused_view_handler title w) else Inr w)"
| "dispatch (ViewTags oid tags) w =
     (if oid \<in> set (status_listeners w) then make_view_tags_handler oid tags w else Inr w)"
| "dispatch (FocusedTags oid tags) w =
     (if oid \<in> set (status_listeners w) then make_focused_tags_handler oid tags w else Inr w)"
| "dispatch (UrgentTags oid tags) w =
     (if oid \<in> set (status_listeners w) then make_urgent_tags_handler oid tags w else Inr w)"
| "dispatch (Success cid out) w =
     (if cid < length (invocations w) then
        (case handle_success out (invocations w ! cid) w of
           (iv', w') \<Rightarrow> Inr (w'\<lparr>invocations := (invocations w')[cid := iv']\<rparr>))
      else Inr w)"
| "dispatch (Failure cid msg) w =
     (if cid < length (invocations w) then
        (case handle_failure msg (invocations w ! cid) w of
           (iv', w') \<Rightarrow> Inr (w'\<lparr>invocations := (invocations w')[cid := iv']\<rparr>))
      else Inr w)"

text \<open>A round trip or a stretch of the main loop: events in order, stopping at an exception.\<close>

fun dispatch_all :: "event list \<Rightarrow> world \<Rightarrow> error option \<times> world" where
  "dispatch_all [] w = (None, w)"
| "dispatch_all (e # es) w =
     (case dispatch e w of
        Inl err \<Rightarrow> (Some err, w)
      | Inr w' \<Rightarrow> dispatch_all es w')"

subsection \<open>Session loop: \<open>_river_connection_task\<close>\<close>

definition wire_seat :: "world \<Rightarrow> world" where
  "wire_seat w =
     (case st_seat w of
        None \<Rightarrow> w
      | Some s \<Rightarrow> w\<lparr>st_seat_status := Some (SeatStatus s), seat_listener := True\<rparr>)"

fun wire_outputs :: "(nat \<times> nat) list \<Rightarrow> world \<Rightarrow> world" where
  "wire_outputs [] w = w"
| "wire_outputs ((nm, r) # rest) w =
     wire_outputs rest
       (w\<lparr>heap := (heap w)(r := map_option
                    (\<lambda>info. info\<lparr>status := Some (OutputStatus (output info))\<rparr>) (heap w r)),
          status_listeners := status_listeners w @ [nm]\<rparr>)"

definition publish :: "world \<Rightarrow> world" where
  "publish w =
     w\<lparr>outputs := fold (\<lambda>(k, v). AList.update k v) (st_outputs w) (outputs w),
       river_status_mgr := st_river_status_mgr w,
       river_control := st_river_control w,
       seat := st_seat w,
       seat_status := st_seat_status w,
       display := True\<rparr>"

datatype task_result = NoStatusManager | Caught error | EnteredMainLoop

text \<open>
  The task up to the main loop. \<open>connected\<close> says whether the display could be reached
  (a failure raises, and is caught like every exception of the task); \<open>evs1\<close> and \<open>evs2\<close>
  are the events of the first and the second round trip.
\<close>

definition river_connection_task ::
  "bool \<Rightarrow> event list \<Rightarrow> event list \<Rightarrow> world \<Rightarrow> task_result \<times> world" where
  "river_connection_task connected evs1 evs2 w =
     (if \<not> connected then (Caught OSError, w)
      else
        (case dispatch_all evs1
                (w\<lparr>st_outputs := [], st_river_status_mgr := None, st_river_control := None,
                   st_seat := None, st_seat_status := None\<rparr>) of
           (Some e, w1) \<Rightarrow> (Caught e, w1)
         | (None, w1) \<Rightarrow>
             (if st_river_status_mgr w1 = None then (NoStatusManager, w1)
              else
                (case dispatch_all evs2 (wire_outputs (st_outputs w1) (wire_seat w1)) of
                   (Some e, w2) \<Rightarrow> (Caught e, w2)
                 | (None, w2) \<Rightarrow> (EnteredMainLoop, idle_add Set_ready (publish w2))))))"

subsection \<open>Main thread: running the queued calls\<close>

definition set_ready :: "world \<Rightarrow> world" where
  "set_ready w = w\<lparr>ready := True, signals := signals w @ [Ready_signal]\<rparr>"

definition tags_data :: "nat list \<Rightarrow> pyval list" where
  "tags_data tags = map (\<lambda>t. PyInt (int t)) tags"

fun run_idle :: "idle_call \<Rightarrow> world \<Rightarrow> world" where
  "run_idle Set_ready w = set_ready w"
| "run_idle (Emit_output_removed nm) w =
     w\<lparr>signals := signals w
         @ [Emit (Detail ''output_removed'') (RiverEvent ''output_removed'' [PyInt (int nm)] None)]\<rparr>"
| "run_idle (Emit_view_tags oid tags) w =
     w\<lparr>signals := signals w
         @ [Emit (Detail ''view_tags'') (RiverEvent ''view_tags'' (tags_data tags) (Some oid)),
            EmitTags (DetailFor ''view_tags'' oid) tags]\<rparr>"
| "run_idle (Emit_focused_tags oid tags) w =
     w\<lparr>signals := signals w
         @ [Emit (Detail ''focused_tags'') (RiverEvent ''focused_tags'' (tags_data tags) (Some oid)),
            EmitTags (DetailFor ''focused_tags'' oid) tags]\<rparr>"
| "run_idle (Emit_urgent_tags oid tags) w =
     w\<lparr>signals := signals w
         @ [Emit (Detail ''urgent_tags'') (RiverEvent ''urgent_tags'' (tags_data tags) (Some oid)),
            EmitTags (DetailFor ''urgent_tags'' oid) tags]\<rparr>"
| "run_idle (Emit_active_window title) w =
     w\<lparr>signals := signals w
         @ [Emit (Detail ''active_window'') (RiverEvent ''active_window'' [PyStr title] None),
            Notify ''active-window'']\<rparr>"
| "run_idle (Callback cb ok out msg) w =
     w\<lparr>callback_calls := callback_calls w @ [(cb, ok, out, msg)]\<rparr>"

definition main_iteration :: "world \<Rightarrow> world" where
  "main_iteration w =
     (case idle_queue w of
        [] \<Rightarrow> w
      | c # q \<Rightarrow> run_idle c (w\<lparr>idle_queue := q\<rparr>))"

subsection \<open>The operations of the service as steps\<close>

datatype op =
    Wl event
  | Idle
  | Run_command string "string list" "nat option"
  | Connect bool "event list" "event list"

fun step :: "(string list \<Rightarrow> proc_outcome) \<Rightarrow> op \<Rightarrow> world \<Rightarrow> world" where
  "step run (Wl e) w = (case dispatch e w of Inl err \<Rightarrow> w | Inr w' \<Rightarrow> w')"
| "step run Idle w = main_iteration w"
| "step run (Run_command command args cb) w = snd (run_command run command args cb w)"
| "step run (Connect connected evs1 evs2) w = snd (river_connection_task connected evs1 evs2 w)"

definition exec :: "(string list \<Rightarrow> proc_outcome) \<Rightarrow> op list \<Rightarrow> world \<Rightarrow> world" where
  "exec run ops w = fold (step run) ops w"

subsection \<open>Notions used to state the properties\<close>

text \<open>
  Whether an event is a completion event on the completion object \<open>cid\<close>, whether it is
  the success event, and the callback invocation its handler queues for the callback \<open>cb\<close>.
\<close>

fun on_object :: "nat \<Rightarrow> event \<Rightarrow> bool" where
  "on_object cid (Success c out) = (c = cid)"
| "on_object cid (Failure c msg) = (c = cid)"
| "on_object cid e = False"

fun succeeded :: "event \<Rightarrow> bool" where
  "succeeded (Success c out) = True"
| "succeeded e = False"

fun callback_of :: "nat \<Rightarrow> event \<Rightarrow> idle_call list" where
  "callback_of cb (Success c out) = [Callback cb True (Some out) None]"
| "callback_of cb (Failure c msg) = [Callback cb False None (Some msg)]"
| "callback_of cb e = []"


text \<open>A session in which the control interface and a seat were found and published.\<close>

definition with_control :: world where
  "with_control = init\<lparr>river_control := Some (Bound 3 ''zriver_control_v1'' 1),
                       seat := Some (Bound 5 ''wl_seat'' 7)\<rparr>"

text \<open>
  The addresses held by the dictionary of outputs are pairwise distinct and allocated: two
  names never denote the same \<open>OutputInfo\<close> object.
\<close>

definition refs_ok :: "world \<Rightarrow> bool" where
  "refs_ok w \<longleftrightarrow> distinct (map snd (st_outputs w))
     \<and> (\<forall>k r. (k, r) \<in> set (st_outputs w) \<longrightarrow> r < next_ref w)"

text \<open>Three behaviours of the external program: absent, printing \<open>ok\<close>, and failing.\<close>

definition riverctl_missing :: "string list \<Rightarrow> proc_outcome" where
  "riverctl_missing cmd = SpawnFailed"

definition riverctl_prints_ok :: "string list \<Rightarrow> proc_outcome" where
  "riverctl_prints_ok cmd = Exited 0 ''ok\<newline>'' []"

definition riverctl_fails :: "string list \<Rightarrow> proc_outcome" where
  "riverctl_fails cmd = Exited 1 [] ''unknown command''"

text \<open>A state with two outputs, 7 and 8, as discovery leaves it; the handlers are evaluated on it.\<close>

definition two_outputs :: world where
  "two_outputs = handle_global 8 ''wl_output'' 4 (handle_global 7 ''wl_output'' 4 init)"

text \<open>The inputs of the codec's contract: one integer, or a list of integers.\<close>

fun as_ints :: "pyval list \<Rightarrow> int list option" where
  "as_ints [] = Some []"
| "as_ints (PyInt n # xs) = map_option ((#) n) (as_ints xs)"
| "as_ints (v # xs) = None"

fun int_words :: "pyval \<Rightarrow> int list option" where
  "int_words (PyInt n) = Some [n]"
| "int_words (PyList xs) = as_ints xs"
| "int_words v = None"

section \<open>Properties\<close>

subsection \<open>Bitfield codec\<close>

lemma scan_bits_int:
  "scan_bits (PyInt w) is tags = Inr (tags \<union> {i \<in> set is. bit w i})"
  by (induction "is" arbitrary: tags) (auto simp: bit_iff_and_push_bit_not_eq_0)

lemma scan_words_int:
  "scan_words (map PyInt ws) tags = Inr (tags \<union> {i. i < 32 \<and> (\<exists>w \<in> set ws. bit w i)})"
  by (induction ws arbitrary: tags) (auto simp: scan_bits_int)

lemma as_ints_Some: "as_ints xs = Some ws \<Longrightarrow> xs = map PyInt ws"
  by (induction xs arbitrary: ws rule: as_ints.induct) auto

lemma decode_bitfields_int_words:
  assumes "int_words v = Some ws"
  shows "decode_bitfields v = Inr (sorted_list_of_set {i. i < 32 \<and> (\<exists>w \<in> set ws. bit w i)})"
proof (cases v)
  case (PyInt n)
  with assms have "ws = [n]" by simp
  with PyInt scan_words_int [of "[n]" "{}"] show ?thesis
    by (simp add: decode_bitfields_def)
next
  case (PyList xs)
  with assms have "xs = map PyInt ws" by (simp add: as_ints_Some)
  with PyList scan_words_int [of ws "{}"] show ?thesis
    by (simp add: decode_bitfields_def)
qed (use assms in simp_all)

lemma decode_bitfields_single: "decode_bitfields (PyInt n) = decode_bitfields (PyList [PyInt n])"
  by (simp add: decode_bitfields_def)

text \<open>
  C2. For a single integer or a list of integers, \<open>_decode_bitfields\<close> returns the strictly
  increasing (sorted, duplicate-free) list whose elements are exactly the positions below 32
  at which some input word has its bit set. It maps 0 to the empty list, \<open>0b1011\<close> to
  \<open>[0, 1, 3]\<close> and the words \<open>0b1\<close>, \<open>0b10\<close> to \<open>[0, 1]\<close>; a single integer gives what
  the one-element list of it gives; no position from 32 on is returned.
\<close>

theorem decode_bitfields_positions:
  "(int_words v = Some ws \<longrightarrow>
      (\<exists>tags. decode_bitfields v = Inr tags \<and> sorted_wrt (<) tags
         \<and> set tags = {i. i < 32 \<and> (\<exists>w \<in> set ws. bit w i)}
         \<and> (\<forall>i \<in> set tags. i < 32)))
   \<and> decode_bitfields (PyInt 0) = Inr []
   \<and> decode_bitfields (PyInt 11) = Inr [0, 1, 3]
   \<and> decode_bitfields (PyList [PyInt 1, PyInt 2]) = Inr [0, 1]
   \<and> decode_bitfields (PyInt n) = decode_bitfields (PyList [PyInt n])"
proof -
  have general: "\<exists>tags. decode_bitfields v = Inr tags \<and> sorted_wrt (<) tags
         \<and> set tags = {i. i < 32 \<and> (\<exists>w \<in> set ws. bit w i)}
         \<and> (\<forall>i \<in> set tags. i < 32)"
    if "int_words v = Some ws"
  proof -
    let ?S = "{i. i < 32 \<and> (\<exists>w \<in> set ws. bit w i)}"
    have fin: "finite ?S" by simp
    have "decode_bitfields v = Inr (sorted_list_of_set ?S)"
      using that by (rule decode_bitfields_int_words)
    moreover have "sorted_wrt (<) (sorted_list_of_set ?S)"
      by (rule strict_sorted_list_of_set)
    moreover have "set (sorted_list_of_set ?S) = ?S"
      using fin by (rule set_sorted_list_of_set)
    ultimately show ?thesis by auto
  qed
  have e0: "decode_bitfields (PyInt 0) = Inr []" by code_simp
  have e1: "decode_bitfields (PyInt 11) = Inr [0, 1, 3]" by code_simp
  have e2: "decode_bitfields (PyList [PyInt 1, PyInt 2]) = Inr [0, 1]" by code_simp
  from general e0 e1 e2 decode_bitfields_single show ?thesis by blast
qed

theorem decode_bitfields_positions_witness:
  "int_words (PyList [PyInt 5, PyInt 3]) = Some [5, 3]
   \<and> (\<exists>tags. decode_bitfields (PyList [PyInt 5, PyInt 3]) = Inr tags \<and> sorted_wrt (<) tags
         \<and> set tags = {i. i < 32 \<and> (\<exists>w \<in> set [5, 3]. bit (w::int) i)}
         \<and> (\<forall>i \<in> set tags. i < 32))"
proof -
  have h: "int_words (PyList [PyInt 5, PyInt 3]) = Some [5, 3]" by simp
  from h decode_bitfields_positions [of "PyList [PyInt 5, PyInt 3]" "[5, 3]" 0]
  show ?thesis by blast
qed

text \<open>
  C10. On every integer and every list of integers, negative ones and ones with bits from
  position 32 on included, \<open>_decode_bitfields\<close> returns a list (it does not raise); each
  element is below 32, the list has at most 32 elements and is strictly increasing.
\<close>

theorem decode_bitfields_total:
  assumes "int_words v = Some ws"
  shows "\<exists>tags. decode_bitfields v = Inr tags \<and> (\<forall>i \<in> set tags. i < 32)
           \<and> length tags \<le> 32 \<and> sorted_wrt (<) tags"
proof -
  let ?S = "{i. i < 32 \<and> (\<exists>w \<in> set ws. bit w i)}"
  let ?tags = "sorted_list_of_set ?S"
  have fin: "finite ?S" by simp
  have dec: "decode_bitfields v = Inr ?tags"
    using assms by (rule decode_bitfields_int_words)
  have mem: "set ?tags = ?S"
    using fin by (rule set_sorted_list_of_set)
  have "?S \<subseteq> {..<32}" by auto
  then have "card ?S \<le> card {..<(32::nat)}"
    by (intro card_mono) simp_all
  then have len: "length ?tags \<le> 32" by simp
  have "sorted_wrt (<) ?tags" by (rule strict_sorted_list_of_set)
  with dec mem len show ?thesis by auto
qed

theorem decode_bitfields_total_witness:
  "int_words (PyList [PyInt (- 1), PyInt (2 ^ 40)]) = Some [- 1, 2 ^ 40]
   \<and> (\<exists>tags. decode_bitfields (PyList [PyInt (- 1), PyInt (2 ^ 40)]) = Inr tags
         \<and> (\<forall>i \<in> set tags. i < 32) \<and> length tags \<le> 32 \<and> sorted_wrt (<) tags)"
proof -
  have h: "int_words (PyList [PyInt (- 1), PyInt (2 ^ 40)]) = Some [- 1, 2 ^ 40]" by simp
  from h decode_bitfields_total [OF h] show ?thesis by simp
qed

subsection \<open>Registry discovery\<close>

lemma filter_key_absent:
  "k \<notin> fst ` set al \<Longrightarrow> filter (\<lambda>p. fst p = k) al = []"
  by (induction al) auto

lemma count_key_update:
  "distinct (map fst al) \<Longrightarrow> length (filter (\<lambda>p. fst p = k) (AList.update k v al)) = 1"
  by (induction al) (auto simp: filter_key_absent)

text \<open>
  C6. A global of interface \<open>wl_output\<close> with name \<open>n\<close> makes \<open>handle_global\<close> allocate one
  new \<open>OutputInfo\<close> with that name, no status and three empty tag lists, and store it under
  \<open>n\<close>, the other entries of the dictionary staying as they were (so the dictionary holds
  exactly one entry for \<open>n\<close>). A removal of \<open>n\<close> afterwards deletes the entry of \<open>n\<close> and only
  that one, and queues exactly the emission of \<open>output_removed\<close> with \<open>[n]\<close>. A removal of
  a name that is not tracked returns the state unchanged, so nothing is queued.
\<close>

theorem output_lifecycle:
  "(let w' = handle_global n ''wl_output'' version w in
      map_of (st_outputs w') = (map_of (st_outputs w))(n \<mapsto> next_ref w)
      \<and> heap w' = (heap w)(next_ref w \<mapsto>
            \<lparr>name = n, output = Bound n ''wl_output'' version, status = None,
             tags_view = [], tags_focused = [], tags_urgent = []\<rparr>)
      \<and> (distinct (map fst (st_outputs w))
           \<longrightarrow> length (filter (\<lambda>p. fst p = n) (st_outputs w')) = 1)
      \<and> idle_queue w' = idle_queue w
      \<and> (let w'' = handle_global_remove n w' in
            map_of (st_outputs w'') = (map_of (st_outputs w'))(n := None)
            \<and> n \<notin> fst ` set (st_outputs w'')
            \<and> idle_queue w'' = idle_queue w' @ [Emit_output_removed n]
            \<and> heap w'' = heap w'))
   \<and> signals (run_idle (Emit_output_removed n) w) = signals w
        @ [Emit (Detail ''output_removed'') (RiverEvent ''output_removed'' [PyInt (int n)] None)]
   \<and> (map_of (st_outputs w) m = None \<longrightarrow> handle_global_remove m w = w)"
proof -
  let ?w' = "handle_global n ''wl_output'' version w"
  let ?w'' = "handle_global_remove n ?w'"
  have st: "st_outputs ?w' = AList.update n (next_ref w) (st_outputs w)"
    by (simp add: handle_global_def)
  have a: "map_of (st_outputs ?w') = (map_of (st_outputs w))(n \<mapsto> next_ref w)"
    by (simp add: st update_conv')
  have b: "heap ?w' = (heap w)(next_ref w \<mapsto>
            \<lparr>name = n, output = Bound n ''wl_output'' version, status = None,
             tags_view = [], tags_focused = [], tags_urgent = []\<rparr>)"
    by (simp add: handle_global_def)
  have c: "length (filter (\<lambda>p. fst p = n) (st_outputs ?w')) = 1"
    if "distinct (map fst (st_outputs w))"
    using that by (simp add: st count_key_update)
  have d: "idle_queue ?w' = idle_queue w"
    by (simp add: handle_global_def)
  have tracked: "map_of (st_outputs ?w') n \<noteq> None"
    by (simp add: a)
  then have rm: "?w'' = idle_add (Emit_output_removed n)
                   (?w'\<lparr>st_outputs := AList.delete n (st_outputs ?w')\<rparr>)"
    by (simp add: handle_global_remove_def)
  have e: "map_of (st_outputs ?w'') = (map_of (st_outputs ?w'))(n := None)"
    by (simp add: rm idle_add_def delete_conv')
  have f: "n \<notin> fst ` set (st_outputs ?w'')"
    by (simp add: rm idle_add_def delete_notin_dom)
  have g: "idle_queue ?w'' = idle_queue ?w' @ [Emit_output_removed n]"
    by (simp add: rm idle_add_def)
  have h: "heap ?w'' = heap ?w'"
    by (simp add: rm idle_add_def)
  have i: "signals (run_idle (Emit_output_removed n) w) = signals w
        @ [Emit (Detail ''output_removed'') (RiverEvent ''output_removed'' [PyInt (int n)] None)]"
    by simp
  have j: "handle_global_remove m w = w" if "map_of (st_outputs w) m = None"
    using that by (simp add: handle_global_remove_def)
  from a b c d e f g h i j show ?thesis
    unfolding Let_def by blast
qed

theorem output_lifecycle_witness:
  "distinct (map fst (st_outputs init)) \<and> map_of (st_outputs init) 9 = None
   \<and> st_outputs (handle_global 7 ''wl_output'' 4 init) = [(7, 0)]
   \<and> heap (handle_global 7 ''wl_output'' 4 init) 0 =
        Some \<lparr>name = 7, output = Bound 7 ''wl_output'' 4, status = None,
              tags_view = [], tags_focused = [], tags_urgent = []\<rparr>
   \<and> length (filter (\<lambda>p. fst p = 7) (st_outputs (handle_global 7 ''wl_output'' 4 init))) = 1
   \<and> 7 \<notin> fst ` set (st_outputs (handle_global_remove 7 (handle_global 7 ''wl_output'' 4 init)))
   \<and> idle_queue (handle_global_remove 7 (handle_global 7 ''wl_output'' 4 init))
        = [Emit_output_removed 7]
   \<and> handle_global_remove 9 init = init"
proof -
  have h1: "distinct (map fst (st_outputs init))" by (simp add: init_def)
  have h2: "map_of (st_outputs init) 9 = None" by (simp add: init_def)
  have q: "idle_queue init = []" by (simp add: init_def)
  have s: "st_outputs (handle_global 7 ''wl_output'' 4 init) = [(7, 0)]"
    by (simp add: handle_global_def init_def)
  from output_lifecycle [of 7 4 init 9] h1 h2 q s show ?thesis
    unfolding Let_def by (simp add: init_def)
qed

subsection \<open>Command session\<close>

lemma py_strip_decomp:
  "\<exists>pre post. s = pre @ py_strip s @ post
     \<and> (\<forall>c \<in> set pre. py_isspace c) \<and> (\<forall>c \<in> set post. py_isspace c)
     \<and> (py_strip s \<noteq> [] \<longrightarrow> \<not> py_isspace (hd (py_strip s)) \<and> \<not> py_isspace (last (py_strip s)))"
proof -
  let ?a = "dropWhile py_isspace s"
  let ?pre = "takeWhile py_isspace s"
  let ?post = "rev (takeWhile py_isspace (rev ?a))"
  have 1: "s = ?pre @ ?a" by simp
  have "rev (takeWhile py_isspace (rev ?a) @ dropWhile py_isspace (rev ?a)) = rev (rev ?a)"
    by (simp only: takeWhile_dropWhile_id)
  then have 2: "?a = py_strip s @ ?post"
    by (simp only: rev_append rev_rev_ident py_strip_def)
  have 3: "\<forall>c \<in> set ?pre. py_isspace c" by (auto dest: set_takeWhileD)
  have 4: "\<forall>c \<in> set ?post. py_isspace c" by (auto dest: set_takeWhileD)
  have 5: "\<not> py_isspace (last (py_strip s))" if "py_strip s \<noteq> []"
    using that by (simp add: py_strip_def last_rev hd_dropWhile)
  have 6: "\<not> py_isspace (hd (py_strip s))" if "py_strip s \<noteq> []"
  proof -
    from that 2 have "hd (py_strip s) = hd ?a" by (metis hd_append2)
    moreover from that 2 have "?a \<noteq> []" by (metis Nil_is_append_conv)
    ultimately show ?thesis by (simp add: hd_dropWhile)
  qed
  from 1 2 have "s = ?pre @ py_strip s @ ?post" by simp
  with 3 4 5 6 show ?thesis by blast
qed

lemma run_command_primary:
  assumes "river_control w = Some c" and "seat w = Some s"
  shows "run_command run command args cb w =
    (Inr (RBool True),
     w\<lparr>control_requests := control_requests w
          @ AddArgument command # map AddArgument args @ [RunCommand s],
       invocations := invocations w @ [(\<lparr>stdout = None, stderr = None, success = None\<rparr>, cb)],
       flushes := (if display w then Suc (flushes w) else flushes w)\<rparr>)"
  using assms by (simp add: run_command_def)

lemma run_command_absent:
  assumes "river_control w = None \<or> seat w = None"
  shows "run_command run command args cb w = run_command_fallback run command args w"
  using assms by (cases "river_control w"; cases "seat w") (simp_all add: run_command_def)

lemma run_command_fallback_world:
  "snd (run_command_fallback run command args w)
     = w\<lparr>procs := procs w @ [''riverctl'' # command # args]\<rparr>"
  by (cases "run (''riverctl'' # command # args)") (simp_all add: run_command_fallback_def Let_def)

lemma run_command_fallback_exit0:
  "run (''riverctl'' # command # args) = Exited 0 out err \<Longrightarrow>
     fst (run_command_fallback run command args w) = Inr (RStr (py_strip out))"
  by (simp add: run_command_fallback_def Let_def)

lemma run_command_fallback_nonzero:
  "run (''riverctl'' # command # args) = Exited rc out err \<Longrightarrow> rc \<noteq> 0 \<Longrightarrow>
     fst (run_command_fallback run command args w) = Inr RNone"
  by (simp add: run_command_fallback_def Let_def)

lemma dispatch_completion:
  assumes "cid < length (invocations w)" and "snd (invocations w ! cid) = Some cb"
    and "on_object cid e"
  shows "\<exists>w2. dispatch e w = Inr w2
     \<and> idle_queue w2 = idle_queue w @ callback_of cb e
     \<and> length (invocations w2) = length (invocations w)
     \<and> snd (invocations w2 ! cid) = Some cb
     \<and> success (fst (invocations w2 ! cid)) = Some (succeeded e)
     \<and> callback_calls w2 = callback_calls w"
proof (cases e)
  case (Success c out)
  with assms show ?thesis
    by (simp add: handle_success_def idle_add_def Let_def)
next
  case (Failure c msg)
  with assms show ?thesis
    by (simp add: handle_failure_def idle_add_def Let_def)
qed (use assms in simp_all)

lemma dispatch_all_completion:
  assumes "cid < length (invocations w)" and "snd (invocations w ! cid) = Some cb"
    and "\<forall>e \<in> set evs. on_object cid e"
  shows "\<exists>w2. dispatch_all evs w = (None, w2)
     \<and> idle_queue w2 = idle_queue w @ concat (map (callback_of cb) evs)
     \<and> length (invocations w2) = length (invocations w)
     \<and> snd (invocations w2 ! cid) = Some cb
     \<and> (evs \<noteq> [] \<longrightarrow> success (fst (invocations w2 ! cid)) = Some (succeeded (last evs)))
     \<and> (evs = [] \<longrightarrow> w2 = w)
     \<and> callback_calls w2 = callback_calls w"
  using assms
proof (induction evs arbitrary: w)
  case Nil
  then show ?case by simp
next
  case (Cons e evs)
  from Cons.prems have on: "on_object cid e" by simp
  from dispatch_completion [OF Cons.prems(1) Cons.prems(2) on]
  obtain w1 where d: "dispatch e w = Inr w1"
    and q: "idle_queue w1 = idle_queue w @ callback_of cb e"
    and l: "length (invocations w1) = length (invocations w)"
    and c: "snd (invocations w1 ! cid) = Some cb"
    and s: "success (fst (invocations w1 ! cid)) = Some (succeeded e)"
    and k: "callback_calls w1 = callback_calls w"
    by blast
  from l Cons.prems(1) have l1: "cid < length (invocations w1)" by simp
  from Cons.prems(3) have rest: "\<forall>e \<in> set evs. on_object cid e" by simp
  from Cons.IH [OF l1 c rest]
  obtain w2 where d2: "dispatch_all evs w1 = (None, w2)"
    and q2: "idle_queue w2 = idle_queue w1 @ concat (map (callback_of cb) evs)"
    and l2: "length (invocations w2) = length (invocations w1)"
    and c2: "snd (invocations w2 ! cid) = Some cb"
    and s2: "evs \<noteq> [] \<longrightarrow> success (fst (invocations w2 ! cid)) = Some (succeeded (last evs))"
    and e2: "evs = [] \<longrightarrow> w2 = w1"
    and k2: "callback_calls w2 = callback_calls w1"
    by blast
  have "dispatch_all (e # evs) w = (None, w2)" using d d2 by simp
  moreover have "idle_queue w2 = idle_queue w @ concat (map (callback_of cb) (e # evs))"
    using q q2 by simp
  moreover have "length (invocations w2) = length (invocations w)" using l l2 by simp
  moreover have "success (fst (invocations w2 ! cid)) = Some (succeeded (last (e # evs)))"
    using s s2 e2 by (cases "evs = []") simp_all
  ultimately show ?case using c2 k k2 by simp
qed

lemma callback_of_length:
  "\<forall>e \<in> set evs. on_object cid e \<Longrightarrow> length (concat (map (callback_of cb) evs)) = length evs"
proof (induction evs)
  case Nil
  show ?case by simp
next
  case (Cons e evs)
  then show ?case by (cases e) simp_all
qed

text \<open>
  C3. When the control handle or the seat is absent, \<open>run_command\<close> is the fallback: it runs
  \<open>riverctl\<close> with the command and its arguments and changes nothing else, so no request is
  sent on the control interface, no completion object is created and the display is not
  flushed. If the process exits with 0 the result is its standard output stripped (the
  output is the result with whitespace before and after it, and the result neither starts
  nor ends with whitespace); if it exits with another code the result is \<open>None\<close>.
\<close>

theorem fallback_routing:
  assumes "river_control w = None \<or> seat w = None"
  shows "run_command run command args cb w = run_command_fallback run command args w
    \<and> snd (run_command run command args cb w)
         = w\<lparr>procs := procs w @ [''riverctl'' # command # args]\<rparr>
    \<and> control_requests (snd (run_command run command args cb w)) = control_requests w
    \<and> invocations (snd (run_command run command args cb w)) = invocations w
    \<and> flushes (snd (run_command run command args cb w)) = flushes w
    \<and> (\<forall>out err. run (''riverctl'' # command # args) = Exited 0 out err \<longrightarrow>
          fst (run_command run command args cb w) = Inr (RStr (py_strip out))
          \<and> (\<exists>pre post. out = pre @ py_strip out @ post
                \<and> (\<forall>c \<in> set pre. py_isspace c) \<and> (\<forall>c \<in> set post. py_isspace c)
                \<and> (py_strip out \<noteq> [] \<longrightarrow>
                      \<not> py_isspace (hd (py_strip out)) \<and> \<not> py_isspace (last (py_strip out)))))
    \<and> (\<forall>rc out err. rc \<noteq> 0 \<and> run (''riverctl'' # command # args) = Exited rc out err \<longrightarrow>
          fst (run_command run command args cb w) = Inr RNone)"
proof -
  have eq: "run_command run command args cb w = run_command_fallback run command args w"
    using assms by (rule run_command_absent)
  have world: "snd (run_command run command args cb w)
         = w\<lparr>procs := procs w @ [''riverctl'' # command # args]\<rparr>"
    by (simp only: eq run_command_fallback_world)
  have ok: "fst (run_command run command args cb w) = Inr (RStr (py_strip out))"
    if "run (''riverctl'' # command # args) = Exited 0 out err" for out err
    using that by (simp only: eq run_command_fallback_exit0)
  have bad: "fst (run_command run command args cb w) = Inr RNone"
    if "rc \<noteq> 0 \<and> run (''riverctl'' # command # args) = Exited rc out err" for rc out err
    using that by (simp add: eq run_command_fallback_nonzero)
  from world have "control_requests (snd (run_command run command args cb w)) = control_requests w"
    and "invocations (snd (run_command run command args cb w)) = invocations w"
    and "flushes (snd (run_command run command args cb w)) = flushes w"
    by simp_all
  with eq world ok bad py_strip_decomp show ?thesis by blast
qed

theorem fallback_routing_witness:
  "(river_control init = None \<or> seat init = None)
   \<and> run_command (\<lambda>cmd. Exited 0 ''  ok\<newline>'' []) ''spawn'' [''foot''] (Some 1) init
       = (Inr (RStr ''ok''), init\<lparr>procs := [[''riverctl'', ''spawn'', ''foot'']]\<rparr>)
   \<and> run_command (\<lambda>cmd. Exited 1 [] ''unknown command'') ''spawn'' [''foot''] (Some 1) init
       = (Inr RNone, init\<lparr>procs := [[''riverctl'', ''spawn'', ''foot'']]\<rparr>)"
proof -
  have h: "river_control init = None \<or> seat init = None" by (simp add: init_def)
  have p: "procs init = []" by (simp add: init_def)
  have s: "py_strip ''  ok\<newline>'' = ''ok''" by (simp add: py_strip_def py_isspace_def)
  note ok = fallback_routing [OF h, of "\<lambda>cmd. Exited 0 ''  ok\<newline>'' []" "''spawn''" "[''foot'']" "Some 1"]
  note bad = fallback_routing [OF h, of "\<lambda>cmd. Exited 1 [] ''unknown command''" "''spawn''" "[''foot'']" "Some 1"]
  have a1: "snd (run_command (\<lambda>cmd. Exited 0 ''  ok\<newline>'' []) ''spawn'' [''foot''] (Some 1) init)
       = init\<lparr>procs := [[''riverctl'', ''spawn'', ''foot'']]\<rparr>"
    using ok [THEN conjunct2, THEN conjunct1] by (simp add: p)
  have a2: "fst (run_command (\<lambda>cmd. Exited 0 ''  ok\<newline>'' []) ''spawn'' [''foot''] (Some 1) init)
       = Inr (RStr ''ok'')"
    using ok [THEN conjunct2, THEN conjunct2, THEN conjunct2, THEN conjunct2, THEN conjunct2,
        THEN conjunct1, rule_format, of "''  ok\<newline>''" "[]"]
    by (simp add: s)
  have b1: "snd (run_command (\<lambda>cmd. Exited 1 [] ''unknown command'') ''spawn'' [''foot''] (Some 1) init)
       = init\<lparr>procs := [[''riverctl'', ''spawn'', ''foot'']]\<rparr>"
    using bad [THEN conjunct2, THEN conjunct1] by (simp add: p)
  have b2: "fst (run_command (\<lambda>cmd. Exited 1 [] ''unknown command'') ''spawn'' [''foot''] (Some 1) init)
       = Inr RNone"
    using bad [THEN conjunct2, THEN conjunct2, THEN conjunct2, THEN conjunct2, THEN conjunct2,
        THEN conjunct2, rule_format, of 1 "[]" "''unknown command''"]
    by simp
  from h a1 a2 b1 b2 show ?thesis by (simp add: prod_eq_iff)
qed

text \<open>
  C4, as stated, fails: on the fallback path \<open>run_command\<close> returns the stripped output of
  the process, a string, or \<open>None\<close>, and neither is a boolean.
\<close>

theorem run_command_returns_bool_counterexample:
  "fst (run_command riverctl_prints_ok ''spawn'' [''foot''] None init) = Inr (RStr ''ok'')
   \<and> fst (run_command riverctl_prints_ok ''spawn'' [''foot''] None init) \<noteq> Inr (RBool True)
   \<and> fst (run_command riverctl_prints_ok ''spawn'' [''foot''] None init) \<noteq> Inr (RBool False)
   \<and> fst (run_command riverctl_fails ''spawn'' [''foot''] None init) = Inr RNone"
  by (simp add: run_command_def run_command_fallback_def init_def py_strip_def py_isspace_def
      riverctl_prints_ok_def riverctl_fails_def)

text \<open>
  C4, amended. With the control handle and the seat present \<open>run_command\<close> returns \<open>True\<close>,
  whatever the process would do and before any completion event. With one of them absent
  it returns what the fallback returns: the stripped standard output when the process
  exits with 0, \<open>None\<close> when it exits with another code.
\<close>

theorem run_command_return_value:
  "(river_control w = Some c \<and> seat w = Some s \<longrightarrow>
      fst (run_command run command args cb w) = Inr (RBool True))
   \<and> (river_control w = None \<or> seat w = None \<longrightarrow>
        (\<forall>out err. run (''riverctl'' # command # args) = Exited 0 out err \<longrightarrow>
           fst (run_command run command args cb w) = Inr (RStr (py_strip out)))
        \<and> (\<forall>rc out err. rc \<noteq> 0 \<and> run (''riverctl'' # command # args) = Exited rc out err \<longrightarrow>
             fst (run_command run command args cb w) = Inr RNone))"
proof (intro conjI impI allI)
  assume "river_control w = Some c \<and> seat w = Some s"
  then show "fst (run_command run command args cb w) = Inr (RBool True)"
    by (simp add: run_command_primary)
next
  fix out err
  assume "river_control w = None \<or> seat w = None"
    and "run (''riverctl'' # command # args) = Exited 0 out err"
  then show "fst (run_command run command args cb w) = Inr (RStr (py_strip out))"
    by (simp only: run_command_absent run_command_fallback_exit0)
next
  fix rc out err
  assume "river_control w = None \<or> seat w = None"
    and "rc \<noteq> 0 \<and> run (''riverctl'' # command # args) = Exited rc out err"
  then show "fst (run_command run command args cb w) = Inr RNone"
    by (simp add: run_command_absent run_command_fallback_nonzero)
qed

theorem run_command_return_value_witness:
  "river_control with_control = Some (Bound 3 ''zriver_control_v1'' 1)
   \<and> seat with_control = Some (Bound 5 ''wl_seat'' 7)
   \<and> fst (run_command (\<lambda>cmd. SpawnFailed) ''spawn'' [''foot''] None with_control)
        = Inr (RBool True)
   \<and> (river_control init = None \<or> seat init = None)
   \<and> fst (run_command (\<lambda>cmd. Exited 0 ''ok\<newline>'' []) ''spawn'' [''foot''] None init)
        = Inr (RStr ''ok'')
   \<and> fst (run_command (\<lambda>cmd. Exited 2 [] ''no'') ''spawn'' [''foot''] None init) = Inr RNone"
proof -
  have c: "river_control with_control = Some (Bound 3 ''zriver_control_v1'' 1)
      \<and> seat with_control = Some (Bound 5 ''wl_seat'' 7)"
    by (simp add: with_control_def init_def)
  have h: "river_control init = None \<or> seat init = None" by (simp add: init_def)
  have s: "py_strip ''ok\<newline>'' = ''ok''" by (simp add: py_strip_def py_isspace_def)
  have a: "fst (run_command (\<lambda>cmd. SpawnFailed) ''spawn'' [''foot''] None with_control)
        = Inr (RBool True)"
    using run_command_return_value [THEN conjunct1, rule_format, OF c] .
  have b: "fst (run_command (\<lambda>cmd. Exited 0 ''ok\<newline>'' []) ''spawn'' [''foot''] None init)
        = Inr (RStr ''ok'')"
    using run_command_return_value [THEN conjunct2, rule_format, OF h, THEN conjunct1,
        rule_format, of "\<lambda>cmd. Exited 0 ''ok\<newline>'' []" "''spawn''" "[''foot'']" "''ok\<newline>''" "[]" None]
    by (simp add: s)
  have d: "fst (run_command (\<lambda>cmd. Exited 2 [] ''no'') ''spawn'' [''foot''] None init) = Inr RNone"
    using run_command_return_value [THEN conjunct2, rule_format, OF h, THEN conjunct2,
        rule_format, of 2 "\<lambda>cmd. Exited 2 [] ''no''" "''spawn''" "[''foot'']" "[]" "''no''" None]
    by simp
  from c h a b d show ?thesis by blast
qed

text \<open>
  C9. On the fallback path the callback plays no part: the call with a callback gives the
  same result and the same state as the call without one, nothing is queued for the main
  thread, no callback is called and no completion object is created, so that nothing can
  call it later either. On the primary path the call itself queues and calls nothing; each
  completion event on the new completion object then queues one call of the callback
  (and calls nothing itself), and running that queued call on the main thread calls the
  callback once.
\<close>

theorem fallback_ignores_callback:
  "(river_control w = None \<or> seat w = None \<longrightarrow>
      run_command run command args cb w = run_command run command args None w
      \<and> idle_queue (snd (run_command run command args cb w)) = idle_queue w
      \<and> callback_calls (snd (run_command run command args cb w)) = callback_calls w
      \<and> invocations (snd (run_command run command args cb w)) = invocations w)
   \<and> (river_control w = Some c \<and> seat w = Some s \<longrightarrow>
        idle_queue (snd (run_command run command args (Some f) w)) = idle_queue w
        \<and> callback_calls (snd (run_command run command args (Some f) w)) = callback_calls w
        \<and> (\<forall>e. on_object (length (invocations w)) e \<longrightarrow>
              (\<exists>w2. dispatch e (snd (run_command run command args (Some f) w)) = Inr w2
                 \<and> idle_queue w2 = idle_queue w @ callback_of f e
                 \<and> length (callback_of f e) = 1
                 \<and> callback_calls w2 = callback_calls w)))
   \<and> callback_calls (run_idle (Callback f ok out msg) w) = callback_calls w @ [(f, ok, out, msg)]"
proof (intro conjI impI allI)
  assume absent: "river_control w = None \<or> seat w = None"
  then show "run_command run command args cb w = run_command run command args None w"
    by (simp only: run_command_absent)
  from absent have world: "snd (run_command run command args cb w)
      = w\<lparr>procs := procs w @ [''riverctl'' # command # args]\<rparr>"
    by (simp only: run_command_absent run_command_fallback_world)
  show "idle_queue (snd (run_command run command args cb w)) = idle_queue w"
    by (simp add: world)
  show "callback_calls (snd (run_command run command args cb w)) = callback_calls w"
    by (simp add: world)
  show "invocations (snd (run_command run command args cb w)) = invocations w"
    by (simp add: world)
next
  assume present: "river_control w = Some c \<and> seat w = Some s"
  let ?w1 = "snd (run_command run command args (Some f) w)"
  from present have w1: "?w1 = w\<lparr>control_requests := control_requests w
          @ AddArgument command # map AddArgument args @ [RunCommand s],
       invocations := invocations w @ [(\<lparr>stdout = None, stderr = None, success = None\<rparr>, Some f)],
       flushes := (if display w then Suc (flushes w) else flushes w)\<rparr>"
    by (simp add: run_command_primary)
  show q: "idle_queue ?w1 = idle_queue w" by (simp add: w1)
  show k: "callback_calls ?w1 = callback_calls w" by (simp add: w1)
  fix e
  assume on: "on_object (length (invocations w)) e"
  have len: "length (invocations w) < length (invocations ?w1)" by (simp add: w1)
  have cb: "snd (invocations ?w1 ! length (invocations w)) = Some f" by (simp add: w1)
  from dispatch_completion [OF len cb on] obtain w2 where
    "dispatch e ?w1 = Inr w2" "idle_queue w2 = idle_queue ?w1 @ callback_of f e"
    "callback_calls w2 = callback_calls ?w1"
    by blast
  moreover from on have "length (callback_of f e) = 1" by (cases e) simp_all
  ultimately show "\<exists>w2. dispatch e ?w1 = Inr w2
                 \<and> idle_queue w2 = idle_queue w @ callback_of f e
                 \<and> length (callback_of f e) = 1
                 \<and> callback_calls w2 = callback_calls w"
    using q k by simp
next
  show "callback_calls (run_idle (Callback f ok out msg) w) = callback_calls w @ [(f, ok, out, msg)]"
    by simp
qed

theorem fallback_ignores_callback_witness:
  "(river_control init = None \<or> seat init = None)
   \<and> run_command (\<lambda>cmd. Exited 0 ''ok'' []) ''spawn'' [''foot''] (Some 4) init
        = run_command (\<lambda>cmd. Exited 0 ''ok'' []) ''spawn'' [''foot''] None init
   \<and> idle_queue (snd (run_command (\<lambda>cmd. Exited 0 ''ok'' []) ''spawn'' [''foot''] (Some 4) init)) = []
   \<and> callback_calls (snd (run_command (\<lambda>cmd. Exited 0 ''ok'' []) ''spawn'' [''foot''] (Some 4) init)) = []
   \<and> river_control with_control = Some (Bound 3 ''zriver_control_v1'' 1)
   \<and> seat with_control = Some (Bound 5 ''wl_seat'' 7)
   \<and> on_object (length (invocations with_control)) (Success 0 ''ok'')
   \<and> (\<exists>w2. dispatch (Success 0 ''ok'')
              (snd (run_command (\<lambda>cmd. SpawnFailed) ''spawn'' [''foot''] (Some 4) with_control))
            = Inr w2
          \<and> idle_queue w2 = [Callback 4 True (Some ''ok'') None]
          \<and> callback_calls w2 = [])"
proof -
  have h: "river_control init = None \<or> seat init = None" by (simp add: init_def)
  have c: "river_control with_control = Some (Bound 3 ''zriver_control_v1'' 1)
      \<and> seat with_control = Some (Bound 5 ''wl_seat'' 7)"
    by (simp add: with_control_def init_def)
  have on: "on_object (length (invocations with_control)) (Success 0 ''ok'')"
    by (simp add: with_control_def init_def)
  have e: "idle_queue init = []" "callback_calls init = []"
    "idle_queue with_control = []" "callback_calls with_control = []"
    by (simp_all add: with_control_def init_def)
  note fb = fallback_ignores_callback [THEN conjunct1, rule_format, OF h,
      of "\<lambda>cmd. Exited 0 ''ok'' []" "''spawn''" "[''foot'']" "Some 4"]
  note pr = fallback_ignores_callback [THEN conjunct2, THEN conjunct1, rule_format, OF c,
      of "\<lambda>cmd. SpawnFailed" "''spawn''" "[''foot'']" 4]
  from pr have "\<exists>w2. dispatch (Success 0 ''ok'')
              (snd (run_command (\<lambda>cmd. SpawnFailed) ''spawn'' [''foot''] (Some 4) with_control))
            = Inr w2
          \<and> idle_queue w2 = idle_queue with_control @ callback_of 4 (Success 0 ''ok'')
          \<and> length (callback_of 4 (Success 0 ''ok'')) = 1
          \<and> callback_calls w2 = callback_calls with_control"
    using on by blast
  then have ex: "\<exists>w2. dispatch (Success 0 ''ok'')
              (snd (run_command (\<lambda>cmd. SpawnFailed) ''spawn'' [''foot''] (Some 4) with_control))
            = Inr w2
          \<and> idle_queue w2 = [Callback 4 True (Some ''ok'') None]
          \<and> callback_calls w2 = []"
    unfolding e by simp
  have f1: "run_command (\<lambda>cmd. Exited 0 ''ok'' []) ''spawn'' [''foot''] (Some 4) init
        = run_command (\<lambda>cmd. Exited 0 ''ok'' []) ''spawn'' [''foot''] None init"
    using fb [THEN conjunct1] .
  have f2: "idle_queue (snd (run_command (\<lambda>cmd. Exited 0 ''ok'' []) ''spawn'' [''foot''] (Some 4) init)) = []"
    using fb [THEN conjunct2, THEN conjunct1] e(1) by (rule trans)
  have f3: "callback_calls (snd (run_command (\<lambda>cmd. Exited 0 ''ok'' []) ''spawn'' [''foot''] (Some 4) init)) = []"
    using fb [THEN conjunct2, THEN conjunct2, THEN conjunct1] e(2) by (rule trans)
  from h c on f1 f2 f3 ex show ?thesis by blast
qed

text \<open>
  C1, as stated, fails: the handlers keep no latch. After \<open>success("ok")\<close> the result is a
  success and one call of the callback is queued; a \<open>failure\<close> event on the same completion
  object then turns the success flag to \<open>False\<close>, stores its message and queues the callback
  again, and the main thread calls the callback twice.
\<close>

theorem resolve_once_counterexample:
  "invocations (exec riverctl_missing
       [Run_command ''spawn'' [''foot''] (Some 4), Wl (Success 0 ''ok'')] with_control)
     = [(\<lparr>stdout = Some ''ok'', stderr = None, success = Some True\<rparr>, Some 4)]
   \<and> invocations (exec riverctl_missing
       [Run_command ''spawn'' [''foot''] (Some 4), Wl (Success 0 ''ok''), Wl (Failure 0 ''boom'')]
       with_control)
     = [(\<lparr>stdout = Some ''ok'', stderr = Some ''boom'', success = Some False\<rparr>, Some 4)]
   \<and> callback_calls (exec riverctl_missing
       [Run_command ''spawn'' [''foot''] (Some 4), Wl (Success 0 ''ok''), Wl (Failure 0 ''boom''),
        Idle, Idle] with_control)
     = [(4, True, Some ''ok'', None), (4, False, None, Some ''boom'')]"
  by (simp add: exec_def run_command_def with_control_def init_def handle_success_def
      handle_failure_def idle_add_def main_iteration_def Let_def)

text \<open>
  C1, amended. After a \<open>run_command\<close> on the primary path the result is pending. Every
  completion event delivered on the new completion object is handled: after a non-empty
  sequence of them the success flag is the outcome of the last one, and one call of the
  callback has been queued per event, in order. So with the single event that the protocol
  sends, the result goes from pending to that event's outcome and the callback is queued
  once; the client itself does not ignore a further event.
\<close>

theorem completion_events_handled:
  "river_control w = Some c \<and> seat w = Some s \<longrightarrow>
     success (fst (invocations (snd (run_command run command args (Some f) w))
                     ! length (invocations w))) = None
     \<and> (\<forall>evs. evs \<noteq> [] \<and> (\<forall>e \<in> set evs. on_object (length (invocations w)) e) \<longrightarrow>
           (\<exists>w2. dispatch_all evs (snd (run_command run command args (Some f) w)) = (None, w2)
              \<and> success (fst (invocations w2 ! length (invocations w)))
                   = Some (succeeded (last evs))
              \<and> idle_queue w2 = idle_queue w @ concat (map (callback_of f) evs)
              \<and> length (concat (map (callback_of f) evs)) = length evs))"
proof (intro impI conjI allI)
  assume present: "river_control w = Some c \<and> seat w = Some s"
  let ?w1 = "snd (run_command run command args (Some f) w)"
  let ?cid = "length (invocations w)"
  from present have w1: "?w1 = w\<lparr>control_requests := control_requests w
          @ AddArgument command # map AddArgument args @ [RunCommand s],
       invocations := invocations w @ [(\<lparr>stdout = None, stderr = None, success = None\<rparr>, Some f)],
       flushes := (if display w then Suc (flushes w) else flushes w)\<rparr>"
    by (simp add: run_command_primary)
  show "success (fst (invocations ?w1 ! ?cid)) = None" by (simp add: w1)
  fix evs
  assume evs: "evs \<noteq> [] \<and> (\<forall>e \<in> set evs. on_object ?cid e)"
  then have on: "\<forall>e \<in> set evs. on_object ?cid e" by simp
  have len: "?cid < length (invocations ?w1)" by (simp add: w1)
  have cb: "snd (invocations ?w1 ! ?cid) = Some f" by (simp add: w1)
  have q: "idle_queue ?w1 = idle_queue w" by (simp add: w1)
  from dispatch_all_completion [OF len cb on] obtain w2 where
    "dispatch_all evs ?w1 = (None, w2)"
    "idle_queue w2 = idle_queue ?w1 @ concat (map (callback_of f) evs)"
    "evs \<noteq> [] \<longrightarrow> success (fst (invocations w2 ! ?cid)) = Some (succeeded (last evs))"
    by blast
  with evs q callback_of_length [OF on, of f]
  show "\<exists>w2. dispatch_all evs ?w1 = (None, w2)
              \<and> success (fst (invocations w2 ! ?cid)) = Some (succeeded (last evs))
              \<and> idle_queue w2 = idle_queue w @ concat (map (callback_of f) evs)
              \<and> length (concat (map (callback_of f) evs)) = length evs"
    by simp
qed

theorem completion_events_handled_witness:
  "river_control with_control = Some (Bound 3 ''zriver_control_v1'' 1)
   \<and> seat with_control = Some (Bound 5 ''wl_seat'' 7)
   \<and> [Success 0 ''ok''] \<noteq> []
   \<and> on_object (length (invocations with_control)) (Success 0 ''ok'')
   \<and> (\<exists>w2. dispatch_all [Success 0 ''ok'']
               (snd (run_command riverctl_missing ''spawn'' [''foot''] (Some 4) with_control))
             = (None, w2)
          \<and> success (fst (invocations w2 ! 0)) = Some True
          \<and> idle_queue w2 = [Callback 4 True (Some ''ok'') None])"
proof -
  have c: "river_control with_control = Some (Bound 3 ''zriver_control_v1'' 1)
      \<and> seat with_control = Some (Bound 5 ''wl_seat'' 7)"
    by (simp add: with_control_def init_def)
  have n: "length (invocations with_control) = 0" "idle_queue with_control = []"
    by (simp_all add: with_control_def init_def)
  have evs: "[Success 0 ''ok''] \<noteq> []
      \<and> (\<forall>e \<in> set [Success 0 ''ok'']. on_object (length (invocations with_control)) e)"
    by (simp add: n)
  from completion_events_handled [rule_format, OF c, THEN conjunct2, rule_format, OF evs,
      of riverctl_missing "''spawn''" "[''foot'']" 4]
  have "\<exists>w2. dispatch_all [Success 0 ''ok'']
               (snd (run_command riverctl_missing ''spawn'' [''foot''] (Some 4) with_control))
             = (None, w2)
          \<and> success (fst (invocations w2 ! 0)) = Some True
          \<and> idle_queue w2 = [Callback 4 True (Some ''ok'') None]"
    unfolding n by simp
  with c evs show ?thesis by simp
qed

subsection \<open>Session loop and readiness\<close>








lemma task_cases:
  obtains (disconnected) "\<not> connected"
      "river_connection_task connected evs1 evs2 w = (Caught OSError, w)"
  | (raised1) e w1 where "connected"
      "dispatch_all evs1 (w\<lparr>st_outputs := [], st_river_status_mgr := None,
          st_river_control := None, st_seat := None, st_seat_status := None\<rparr>) = (Some e, w1)"
      "river_connection_task connected evs1 evs2 w = (Caught e, w1)"
  | (no_manager) w1 where "connected"
      "dispatch_all evs1 (w\<lparr>st_outputs := [], st_river_status_mgr := None,
          st_river_control := None, st_seat := None, st_seat_status := None\<rparr>) = (None, w1)"
      "st_river_status_mgr w1 = None"
      "river_connection_task connected evs1 evs2 w = (NoStatusManager, w1)"
  | (raised2) e w1 w2 where "connected"
      "dispatch_all evs1 (w\<lparr>st_outputs := [], st_river_status_mgr := None,
          st_river_control := None, st_seat := None, st_seat_status := None\<rparr>) = (None, w1)"
      "st_river_status_mgr w1 \<noteq> None"
      "dispatch_all evs2 (wire_outputs (st_outputs w1) (wire_seat w1)) = (Some e, w2)"
      "river_connection_task connected evs1 evs2 w = (Caught e, w2)"
  | (main_loop) w1 w2 where "connected"
      "dispatch_all evs1 (w\<lparr>st_outputs := [], st_river_status_mgr := None,
          st_river_control := None, st_seat := None, st_seat_status := None\<rparr>) = (None, w1)"
      "st_river_status_mgr w1 \<noteq> None"
      "dispatch_all evs2 (wire_outputs (st_outputs w1) (wire_seat w1)) = (None, w2)"
      "river_connection_task connected evs1 evs2 w
         = (EnteredMainLoop, idle_add Set_ready (publish w2))"
proof (cases connected)
  case False
  then show ?thesis by (intro disconnected) (simp_all add: river_connection_task_def)
next
  case True
  let ?fresh = "w\<lparr>st_outputs := [], st_river_status_mgr := None,
          st_river_control := None, st_seat := None, st_seat_status := None\<rparr>"
  obtain r1 w1 where d1: "dispatch_all evs1 ?fresh = (r1, w1)" by (cases "dispatch_all evs1 ?fresh")
  show ?thesis
  proof (cases r1)
    case (Some e)
    with True d1 show ?thesis by (intro raised1 [of e w1]) (simp_all add: river_connection_task_def)
  next
    case None
    note r1 = None
    show ?thesis
    proof (cases "st_river_status_mgr w1 = None")
      case mgr: True
      with True d1 r1 show ?thesis
        by (intro no_manager [of w1]) (simp_all add: river_connection_task_def)
    next
      case mgr: False
      obtain r2 w2 where d2: "dispatch_all evs2 (wire_outputs (st_outputs w1) (wire_seat w1)) = (r2, w2)"
        by (cases "dispatch_all evs2 (wire_outputs (st_outputs w1) (wire_seat w1))")
      show ?thesis
      proof (cases r2)
        case (Some e)
        with True d1 r1 mgr d2 show ?thesis
          by (intro raised2 [of w1 e w2]) (simp_all add: river_connection_task_def)
      next
        case None
        with True d1 r1 mgr d2 show ?thesis
          by (intro main_loop [of w1 w2]) (simp_all add: river_connection_task_def)
      qed
    qed
  qed
qed














subsection \<open>Status listeners\<close>

lemma other_name_other_object:
  assumes "distinct (map snd al)" and "map_of al k = Some r" and "map_of al k' = Some r'"
    and "k \<noteq> k'"
  shows "r \<noteq> r'"
proof
  assume eq: "r = r'"
  from assms(2) have m: "(k, r) \<in> set al" by (rule map_of_SomeD)
  from assms(3) have m': "(k', r') \<in> set al" by (rule map_of_SomeD)
  from assms(1) have "inj_on snd (set al)" by (simp add: distinct_map)
  from this _ m m' have "(k, r) = (k', r')" by (rule inj_onD) (simp add: eq)
  with assms(4) show False by simp
qed

lemma update_set: "set (AList.update k v al) \<subseteq> insert (k, v) (set al)"
  by (induction al) auto

lemma update_fresh_distinct:
  "distinct (map snd al) \<Longrightarrow> v \<notin> snd ` set al \<Longrightarrow> distinct (map snd (AList.update k v al))"
proof (induction al)
  case Nil
  show ?case by simp
next
  case (Cons p al)
  from Cons.prems have d: "distinct (map snd al)" and f: "v \<notin> snd ` set al"
    and p: "snd p \<notin> snd ` set al" and v: "v \<noteq> snd p" by auto
  show ?case
  proof (cases "fst p = k")
    case True
    with d f show ?thesis by simp
  next
    case False
    from update_set [of k v al] p v have "snd p \<notin> snd ` set (AList.update k v al)" by auto
    with False Cons.IH [OF d f] show ?thesis by simp
  qed
qed

lemma delete_distinct: "distinct (map snd al) \<Longrightarrow> distinct (map snd (AList.delete k al))"
  by (simp add: AList.delete_eq distinct_map_filter)

lemma handle_global_refs_ok:
  assumes "refs_ok w"
  shows "refs_ok (handle_global nm iface version w)"
proof (cases "iface = ''wl_output''")
  case True
  let ?al = "AList.update nm (next_ref w) (st_outputs w)"
  from assms have fresh: "next_ref w \<notin> snd ` set (st_outputs w)"
    by (fastforce simp: refs_ok_def)
  with assms have "distinct (map snd ?al)"
    by (simp add: refs_ok_def update_fresh_distinct)
  moreover from assms update_set [of nm "next_ref w" "st_outputs w"]
  have "\<forall>k r. (k, r) \<in> set ?al \<longrightarrow> r < Suc (next_ref w)"
    by (auto simp: refs_ok_def less_Suc_eq)
  moreover from True have "st_outputs (handle_global nm iface version w) = ?al"
    and "next_ref (handle_global nm iface version w) = Suc (next_ref w)"
    by (simp_all add: handle_global_def)
  ultimately show ?thesis by (simp add: refs_ok_def)
next
  case False
  then have "st_outputs (handle_global nm iface version w) = st_outputs w"
    and "next_ref (handle_global nm iface version w) = next_ref w"
    by (simp_all add: handle_global_def)
  with assms show ?thesis by (simp add: refs_ok_def)
qed

lemma handle_global_remove_refs_ok:
  assumes "refs_ok w"
  shows "refs_ok (handle_global_remove nm w)"
proof -
  have "set (AList.delete nm (st_outputs w)) \<subseteq> set (st_outputs w)"
    by (auto simp: AList.delete_eq)
  with assms show ?thesis
    by (auto simp: refs_ok_def handle_global_remove_def idle_add_def delete_distinct)
qed

lemma dispatch_refs_ok:
  assumes "refs_ok w" and "dispatch e w = Inr w'"
  shows "refs_ok w'"
proof (cases e)
  case (Global nm iface version)
  with assms show ?thesis by (auto simp: handle_global_refs_ok)
next
  case (GlobalRemove nm)
  with assms show ?thesis by (auto simp: handle_global_remove_refs_ok)
next
  case (FocusedView title)
  with assms show ?thesis
    by (auto simp: refs_ok_def focused_view_handler_def idle_add_def split: if_splits)
next
  case (ViewTags oid tags)
  with assms show ?thesis
    by (auto simp: refs_ok_def make_view_tags_handler_def idle_add_def
        split: if_splits sum.splits option.splits)
next
  case (FocusedTags oid tags)
  with assms show ?thesis
    by (auto simp: refs_ok_def make_focused_tags_handler_def idle_add_def
        split: if_splits sum.splits option.splits)
next
  case (UrgentTags oid tags)
  with assms show ?thesis
    by (auto simp: refs_ok_def make_urgent_tags_handler_def idle_add_def
        split: if_splits sum.splits option.splits)
next
  case (Success cid out)
  with assms show ?thesis
    by (auto simp: refs_ok_def handle_success_def idle_add_def Let_def
        split: if_splits option.splits)
next
  case (Failure cid msg)
  with assms show ?thesis
    by (auto simp: refs_ok_def handle_failure_def idle_add_def Let_def
        split: if_splits option.splits)
qed

lemma dispatch_all_refs_ok:
  "refs_ok w \<Longrightarrow> dispatch_all evs w = (r, w') \<Longrightarrow> refs_ok w'"
proof (induction evs arbitrary: w)
  case Nil
  then show ?case by simp
next
  case (Cons e evs)
  show ?case
  proof (cases "dispatch e w")
    case (Inl err)
    with Cons.prems show ?thesis by auto
  next
    case (Inr w1)
    with Cons.prems have "dispatch_all evs w1 = (r, w')" by simp
    moreover from Cons.prems(1) Inr have "refs_ok w1" by (rule dispatch_refs_ok)
    ultimately show ?thesis by (intro Cons.IH)
  qed
qed

lemma wire_outputs_refs:
  "st_outputs (wire_outputs al w) = st_outputs w \<and> next_ref (wire_outputs al w) = next_ref w"
  by (induction al w rule: wire_outputs.induct) simp_all

lemma wired_refs_ok: "refs_ok w \<Longrightarrow> refs_ok (wire_outputs al (wire_seat w))"
  by (simp add: refs_ok_def wire_outputs_refs wire_seat_def split: option.splits)

lemma task_refs_ok: "refs_ok (snd (river_connection_task connected evs1 evs2 w))" if "refs_ok w"
proof (cases connected evs1 evs2 w rule: task_cases)
  case disconnected
  with that show ?thesis by simp
next
  let ?fresh = "w\<lparr>st_outputs := [], st_river_status_mgr := None,
          st_river_control := None, st_seat := None, st_seat_status := None\<rparr>"
  have fresh: "refs_ok ?fresh" by (simp add: refs_ok_def)
  {
    case (raised1 e w1)
    from dispatch_all_refs_ok [OF fresh raised1(2)] raised1(3) show ?thesis by simp
  next
    case (no_manager w1)
    from dispatch_all_refs_ok [OF fresh no_manager(2)] no_manager(4) show ?thesis by simp
  next
    case (raised2 e w1 w2)
    from dispatch_all_refs_ok [OF fresh raised2(2)] have "refs_ok w1" .
    then have "refs_ok (wire_outputs (st_outputs w1) (wire_seat w1))" by (rule wired_refs_ok)
    from dispatch_all_refs_ok [OF this raised2(4)] raised2(5) show ?thesis by simp
  next
    case (main_loop w1 w2)
    from dispatch_all_refs_ok [OF fresh main_loop(2)] have "refs_ok w1" .
    then have "refs_ok (wire_outputs (st_outputs w1) (wire_seat w1))" by (rule wired_refs_ok)
    from dispatch_all_refs_ok [OF this main_loop(4)] have "refs_ok w2" .
    with main_loop(5) show ?thesis by (simp add: refs_ok_def idle_add_def publish_def)
  }
qed

lemma step_refs_ok: "refs_ok w \<Longrightarrow> refs_ok (step run op w)"
proof (cases op)
  case (Wl e)
  assume "refs_ok w"
  with Wl show ?thesis
    by (cases "dispatch e w") (auto dest: dispatch_refs_ok)
next
  case Idle
  assume ok: "refs_ok w"
  have "st_outputs (run_idle c v) = st_outputs v \<and> next_ref (run_idle c v) = next_ref v" for c v
    by (cases c) (simp_all add: set_ready_def)
  with ok Idle show ?thesis
    by (cases "idle_queue w") (simp_all add: main_iteration_def refs_ok_def)
next
  case (Run_command command args cb)
  assume ok: "refs_ok w"
  show ?thesis
  proof (cases "river_control w = None \<or> seat w = None")
    case True
    then have "snd (run_command run command args cb w)
        = w\<lparr>procs := procs w @ [''riverctl'' # command # args]\<rparr>"
      by (simp only: run_command_absent run_command_fallback_world)
    with ok Run_command show ?thesis by (simp add: refs_ok_def)
  next
    case False
    then obtain c s where "river_control w = Some c" "seat w = Some s" by auto
    with ok Run_command show ?thesis by (simp add: run_command_primary refs_ok_def)
  qed
next
  case (Connect connected evs1 evs2)
  assume "refs_ok w"
  with Connect show ?thesis by (simp add: task_refs_ok)
qed

lemma reachable_refs_ok: "refs_ok (exec run ops init)"
proof -
  have "refs_ok w \<Longrightarrow> refs_ok (fold (step run) ops w)" for w
    by (induction ops arbitrary: w) (simp_all add: step_refs_ok)
  moreover have "refs_ok init" by (simp add: refs_ok_def init_def)
  ultimately show ?thesis by (simp add: exec_def)
qed

lemma make_view_tags_handler_frame:
  assumes "make_view_tags_handler oid tags w = Inr w'"
  shows "\<exists>r decoded. map_of (st_outputs w) oid = Some r \<and> decode_bitfields tags = Inr decoded
           \<and> (\<forall>info. heap w r = Some info \<longrightarrow> heap w' r = Some (info\<lparr>tags_view := decoded\<rparr>))
           \<and> (\<forall>r'. r' \<noteq> r \<longrightarrow> heap w' r' = heap w r')
           \<and> st_outputs w' = st_outputs w"
proof -
  from assms obtain decoded where dec: "decode_bitfields tags = Inr decoded"
    by (cases "decode_bitfields tags") (simp_all add: make_view_tags_handler_def)
  from assms dec obtain r where r: "map_of (st_outputs w) oid = Some r"
    by (cases "map_of (st_outputs w) oid") (simp_all add: make_view_tags_handler_def)
  from assms dec r have w': "w' = idle_add (Emit_view_tags oid decoded)
      (w\<lparr>heap := (heap w)(r := map_option (\<lambda>info. info\<lparr>tags_view := decoded\<rparr>) (heap w r))\<rparr>)"
    by (simp add: make_view_tags_handler_def)
  have "\<forall>info. heap w r = Some info \<longrightarrow> heap w' r = Some (info\<lparr>tags_view := decoded\<rparr>)"
    by (simp add: w' idle_add_def)
  moreover have "\<forall>r'. r' \<noteq> r \<longrightarrow> heap w' r' = heap w r'"
    by (simp add: w' idle_add_def)
  moreover have "st_outputs w' = st_outputs w"
    by (simp add: w' idle_add_def)
  ultimately show ?thesis using dec r by blast
qed

lemma make_focused_tags_handler_frame:
  assumes "make_focused_tags_handler oid tags w = Inr w'"
  shows "\<exists>r decoded. map_of (st_outputs w) oid = Some r \<and> decode_bitfields tags = Inr decoded
           \<and> (\<forall>info. heap w r = Some info \<longrightarrow> heap w' r = Some (info\<lparr>tags_focused := decoded\<rparr>))
           \<and> (\<forall>r'. r' \<noteq> r \<longrightarrow> heap w' r' = heap w r')
           \<and> st_outputs w' = st_outputs w"
proof -
  from assms obtain decoded where dec: "decode_bitfields tags = Inr decoded"
    by (cases "decode_bitfields tags") (simp_all add: make_focused_tags_handler_def)
  from assms dec obtain r where r: "map_of (st_outputs w) oid = Some r"
    by (cases "map_of (st_outputs w) oid") (simp_all add: make_focused_tags_handler_def)
  from assms dec r have w': "w' = idle_add (Emit_focused_tags oid decoded)
      (w\<lparr>heap := (heap w)(r := map_option (\<lambda>info. info\<lparr>tags_focused := decoded\<rparr>) (heap w r))\<rparr>)"
    by (simp add: make_focused_tags_handler_def)
  have "\<forall>info. heap w r = Some info \<longrightarrow> heap w' r = Some (info\<lparr>tags_focused := decoded\<rparr>)"
    by (simp add: w' idle_add_def)
  moreover have "\<forall>r'. r' \<noteq> r \<longrightarrow> heap w' r' = heap w r'"
    by (simp add: w' idle_add_def)
  moreover have "st_outputs w' = st_outputs w"
    by (simp add: w' idle_add_def)
  ultimately show ?thesis using dec r by blast
qed

lemma make_urgent_tags_handler_frame:
  assumes "make_urgent_tags_handler oid tags w = Inr w'"
  shows "\<exists>r decoded. map_of (st_outputs w) oid = Some r \<and> decode_bitfields tags = Inr decoded
           \<and> (\<forall>info. heap w r = Some info \<longrightarrow> heap w' r = Some (info\<lparr>tags_urgent := decoded\<rparr>))
           \<and> (\<forall>r'. r' \<noteq> r \<longrightarrow> heap w' r' = heap w r')
           \<and> st_outputs w' = st_outputs w"
proof -
  from assms obtain decoded where dec: "decode_bitfields tags = Inr decoded"
    by (cases "decode_bitfields tags") (simp_all add: make_urgent_tags_handler_def)
  from assms dec obtain r where r: "map_of (st_outputs w) oid = Some r"
    by (cases "map_of (st_outputs w) oid") (simp_all add: make_urgent_tags_handler_def)
  from assms dec r have w': "w' = idle_add (Emit_urgent_tags oid decoded)
      (w\<lparr>heap := (heap w)(r := map_option (\<lambda>info. info\<lparr>tags_urgent := decoded\<rparr>) (heap w r))\<rparr>)"
    by (simp add: make_urgent_tags_handler_def)
  have "\<forall>info. heap w r = Some info \<longrightarrow> heap w' r = Some (info\<lparr>tags_urgent := decoded\<rparr>)"
    by (simp add: w' idle_add_def)
  moreover have "\<forall>r'. r' \<noteq> r \<longrightarrow> heap w' r' = heap w r'"
    by (simp add: w' idle_add_def)
  moreover have "st_outputs w' = st_outputs w"
    by (simp add: w' idle_add_def)
  ultimately show ?thesis using dec r by blast
qed

text \<open>
  C8. When the handler of a view-tags event of output \<open>oid\<close> returns, the object stored
  under \<open>oid\<close> has its \<open>tags_view\<close> replaced by the decoded list and every other field
  (\<open>tags_focused\<close>, \<open>tags_urgent\<close>, \<open>name\<close>, \<open>output\<close>, \<open>status\<close>) as before; every other
  \<open>OutputInfo\<close> object is as before, hence (two names never denoting one object) so is the
  record of every other output, and so is the dictionary. The same holds for the
  focused-tags handler with \<open>tags_focused\<close> and the urgent-tags handler with \<open>tags_urgent\<close>.
  In every state the service reaches from its construction, two names never denote one
  object.
\<close>

theorem tag_kinds_independent:
  "(make_view_tags_handler oid tags w = Inr w' \<longrightarrow>
      (\<exists>r decoded. map_of (st_outputs w) oid = Some r \<and> decode_bitfields tags = Inr decoded
         \<and> (\<forall>info. heap w r = Some info \<longrightarrow>
               (\<exists>info'. heap w' r = Some info' \<and> tags_view info' = decoded
                  \<and> tags_focused info' = tags_focused info \<and> tags_urgent info' = tags_urgent info
                  \<and> name info' = name info \<and> output info' = output info
                  \<and> status info' = status info))
         \<and> (\<forall>r'. r' \<noteq> r \<longrightarrow> heap w' r' = heap w r')
         \<and> (refs_ok w \<longrightarrow>
               (\<forall>oid' r'. oid' \<noteq> oid \<and> map_of (st_outputs w) oid' = Some r'
                  \<longrightarrow> heap w' r' = heap w r'))
         \<and> st_outputs w' = st_outputs w))
   \<and> (make_focused_tags_handler oid tags w = Inr w' \<longrightarrow>
      (\<exists>r decoded. map_of (st_outputs w) oid = Some r \<and> decode_bitfields tags = Inr decoded
         \<and> (\<forall>info. heap w r = Some info \<longrightarrow>
               (\<exists>info'. heap w' r = Some info' \<and> tags_focused info' = decoded
                  \<and> tags_view info' = tags_view info \<and> tags_urgent info' = tags_urgent info
                  \<and> name info' = name info \<and> output info' = output info
                  \<and> status info' = status info))
         \<and> (\<forall>r'. r' \<noteq> r \<longrightarrow> heap w' r' = heap w r')
         \<and> (refs_ok w \<longrightarrow>
               (\<forall>oid' r'. oid' \<noteq> oid \<and> map_of (st_outputs w) oid' = Some r'
                  \<longrightarrow> heap w' r' = heap w r'))
         \<and> st_outputs w' = st_outputs w))
   \<and> (make_urgent_tags_handler oid tags w = Inr w' \<longrightarrow>
      (\<exists>r decoded. map_of (st_outputs w) oid = Some r \<and> decode_bitfields tags = Inr decoded
         \<and> (\<forall>info. heap w r = Some info \<longrightarrow>
               (\<exists>info'. heap w' r = Some info' \<and> tags_urgent info' = decoded
                  \<and> tags_view info' = tags_view info \<and> tags_focused info' = tags_focused info
                  \<and> name info' = name info \<and> output info' = output info
                  \<and> status info' = status info))
         \<and> (\<forall>r'. r' \<noteq> r \<longrightarrow> heap w' r' = heap w r')
         \<and> (refs_ok w \<longrightarrow>
               (\<forall>oid' r'. oid' \<noteq> oid \<and> map_of (st_outputs w) oid' = Some r'
                  \<longrightarrow> heap w' r' = heap w r'))
         \<and> st_outputs w' = st_outputs w))
   \<and> refs_ok (exec run ops init)"
proof (intro conjI impI)
  assume "make_view_tags_handler oid tags w = Inr w'"
  from make_view_tags_handler_frame [OF this]
  obtain r decoded where r: "map_of (st_outputs w) oid = Some r"
    and d: "decode_bitfields tags = Inr decoded"
    and upd: "\<forall>info. heap w r = Some info \<longrightarrow> heap w' r = Some (info\<lparr>tags_view := decoded\<rparr>)"
    and frame: "\<forall>r'. r' \<noteq> r \<longrightarrow> heap w' r' = heap w r'"
    and st: "st_outputs w' = st_outputs w"
    by blast
  have fields: "\<forall>info. heap w r = Some info \<longrightarrow>
               (\<exists>info'. heap w' r = Some info' \<and> tags_view info' = decoded
                  \<and> tags_focused info' = tags_focused info \<and> tags_urgent info' = tags_urgent info
                  \<and> name info' = name info \<and> output info' = output info
                  \<and> status info' = status info)"
    using upd by simp
  have names: "heap w' r' = heap w r'"
    if "refs_ok w" and "oid' \<noteq> oid \<and> map_of (st_outputs w) oid' = Some r'" for oid' r'
  proof -
    from that have "distinct (map snd (st_outputs w))" by (simp add: refs_ok_def)
    from this r _ _ have "r \<noteq> r'" by (rule other_name_other_object) (use that in auto)
    with frame show ?thesis by simp
  qed
  from r d fields frame names st show
    "\<exists>r decoded. map_of (st_outputs w) oid = Some r \<and> decode_bitfields tags = Inr decoded
         \<and> (\<forall>info. heap w r = Some info \<longrightarrow>
               (\<exists>info'. heap w' r = Some info' \<and> tags_view info' = decoded
                  \<and> tags_focused info' = tags_focused info \<and> tags_urgent info' = tags_urgent info
                  \<and> name info' = name info \<and> output info' = output info
                  \<and> status info' = status info))
         \<and> (\<forall>r'. r' \<noteq> r \<longrightarrow> heap w' r' = heap w r')
         \<and> (refs_ok w \<longrightarrow>
               (\<forall>oid' r'. oid' \<noteq> oid \<and> map_of (st_outputs w) oid' = Some r'
                  \<longrightarrow> heap w' r' = heap w r'))
         \<and> st_outputs w' = st_outputs w"
    by blast
next
  assume "make_focused_tags_handler oid tags w = Inr w'"
  from make_focused_tags_handler_frame [OF this]
  obtain r decoded where r: "map_of (st_outputs w) oid = Some r"
    and d: "decode_bitfields tags = Inr decoded"
    and upd: "\<forall>info. heap w r = Some info \<longrightarrow> heap w' r = Some (info\<lparr>tags_focused := decoded\<rparr>)"
    and frame: "\<forall>r'. r' \<noteq> r \<longrightarrow> heap w' r' = heap w r'"
    and st: "st_outputs w' = st_outputs w"
    by blast
  have fields: "\<forall>info. heap w r = Some info \<longrightarrow>
               (\<exists>info'. heap w' r = Some info' \<and> tags_focused info' = decoded
                  \<and> tags_view info' = tags_view info \<and> tags_urgent info' = tags_urgent info
                  \<and> name info' = name info \<and> output info' = output info
                  \<and> status info' = status info)"
    using upd by simp
  have names: "heap w' r' = heap w r'"
    if "refs_ok w" and "oid' \<noteq> oid \<and> map_of (st_outputs w) oid' = Some r'" for oid' r'
  proof -
    from that have "distinct (map snd (st_outputs w))" by (simp add: refs_ok_def)
    from this r _ _ have "r \<noteq> r'" by (rule other_name_other_object) (use that in auto)
    with frame show ?thesis by simp
  qed
  from r d fields frame names st show
    "\<exists>r decoded. map_of (st_outputs w) oid = Some r \<and> decode_bitfields tags = Inr decoded
         \<and> (\<forall>info. heap w r = Some info \<longrightarrow>
               (\<exists>info'. heap w' r = Some info' \<and> tags_focused info' = decoded
                  \<and> tags_view info' = tags_view info \<and> tags_urgent info' = tags_urgent info
                  \<and> name info' = name info \<and> output info' = output info
                  \<and> status info' = status info))
         \<and> (\<forall>r'. r' \<noteq> r \<longrightarrow> heap w' r' = heap w r')
         \<and> (refs_ok w \<longrightarrow>
               (\<forall>oid' r'. oid' \<noteq> oid \<and> map_of (st_outputs w) oid' = Some r'
                  \<longrightarrow> heap w' r' = heap w r'))
         \<and> st_outputs w' = st_outputs w"
    by blast
next
  assume "make_urgent_tags_handler oid tags w = Inr w'"
  from make_urgent_tags_handler_frame [OF this]
  obtain r decoded where r: "map_of (st_outputs w) oid = Some r"
    and d: "decode_bitfields tags = Inr decoded"
    and upd: "\<forall>info. heap w r = Some info \<longrightarrow> heap w' r = Some (info\<lparr>tags_urgent := decoded\<rparr>)"
    and frame: "\<forall>r'. r' \<noteq> r \<longrightarrow> heap w' r' = heap w r'"
    and st: "st_outputs w' = st_outputs w"
    by blast
  have fields: "\<forall>info. heap w r = Some info \<longrightarrow>
               (\<exists>info'. heap w' r = Some info' \<and> tags_urgent info' = decoded
                  \<and> tags_view info' = tags_view info \<and> tags_focused info' = tags_focused info
                  \<and> name info' = name info \<and> output info' = output info
                  \<and> status info' = status info)"
    using upd by simp
  have names: "heap w' r' = heap w r'"
    if "refs_ok w" and "oid' \<noteq> oid \<and> map_of (st_outputs w) oid' = Some r'" for oid' r'
  proof -
    from that have "distinct (map snd (st_outputs w))" by (simp add: refs_ok_def)
    from this r _ _ have "r \<noteq> r'" by (rule other_name_other_object) (use that in auto)
    with frame show ?thesis by simp
  qed
  from r d fields frame names st show
    "\<exists>r decoded. map_of (st_outputs w) oid = Some r \<and> decode_bitfields tags = Inr decoded
         \<and> (\<forall>info. heap w r = Some info \<longrightarrow>
               (\<exists>info'. heap w' r = Some info' \<and> tags_urgent info' = decoded
                  \<and> tags_view info' = tags_view info \<and> tags_focused info' = tags_focused info
                  \<and> name info' = name info \<and> output info' = output info
                  \<and> status info' = status info))
         \<and> (\<forall>r'. r' \<noteq> r \<longrightarrow> heap w' r' = heap w r')
         \<and> (refs_ok w \<longrightarrow>
               (\<forall>oid' r'. oid' \<noteq> oid \<and> map_of (st_outputs w) oid' = Some r'
                  \<longrightarrow> heap w' r' = heap w r'))
         \<and> st_outputs w' = st_outputs w"
    by blast
next
  show "refs_ok (exec run ops init)" by (rule reachable_refs_ok)
qed

theorem tag_kinds_independent_witness:
  "refs_ok two_outputs
   \<and> (case make_view_tags_handler 7 (PyInt 5) two_outputs of
        Inl e \<Rightarrow> False
      | Inr w' \<Rightarrow> map_option tags_view (heap w' 0) = Some [0, 2]
          \<and> map_option tags_focused (heap w' 0) = Some []
          \<and> map_option tags_urgent (heap w' 0) = Some []
          \<and> heap w' 1 = heap two_outputs 1)
   \<and> (case make_focused_tags_handler 7 (PyInt 6) two_outputs of
        Inl e \<Rightarrow> False
      | Inr w' \<Rightarrow> map_option tags_focused (heap w' 0) = Some [1, 2]
          \<and> map_option tags_view (heap w' 0) = Some []
          \<and> map_option tags_urgent (heap w' 0) = Some []
          \<and> heap w' 1 = heap two_outputs 1)
   \<and> (case make_urgent_tags_handler 8 (PyList [PyInt 1, PyInt 2]) two_outputs of
        Inl e \<Rightarrow> False
      | Inr w' \<Rightarrow> map_option tags_urgent (heap w' 1) = Some [0, 1]
          \<and> map_option tags_view (heap w' 1) = Some []
          \<and> map_option tags_focused (heap w' 1) = Some []
          \<and> heap w' 0 = heap two_outputs 0)"
proof -
  have st: "st_outputs two_outputs = [(7, 0), (8, 1)]"
    by (simp add: two_outputs_def handle_global_def init_def)
  have hp0: "heap two_outputs 0 = Some \<lparr>name = 7, output = Bound 7 ''wl_output'' 4,
      status = None, tags_view = [], tags_focused = [], tags_urgent = []\<rparr>"
    by (simp add: two_outputs_def handle_global_def init_def)
  have hp1: "heap two_outputs 1 = Some \<lparr>name = 8, output = Bound 8 ''wl_output'' 4,
      status = None, tags_view = [], tags_focused = [], tags_urgent = []\<rparr>"
    by (simp add: two_outputs_def handle_global_def init_def)
  have v: "case make_view_tags_handler 7 (PyInt 5) two_outputs of
        Inl e \<Rightarrow> False
      | Inr w' \<Rightarrow> map_option tags_view (heap w' 0) = Some [0, 2]
          \<and> map_option tags_focused (heap w' 0) = Some []
          \<and> map_option tags_urgent (heap w' 0) = Some []
          \<and> heap w' 1 = heap two_outputs 1"
  proof -
    have dec: "decode_bitfields (PyInt 5) = Inr [0, 2]" by code_simp
    obtain w' where run: "make_view_tags_handler 7 (PyInt 5) two_outputs = Inr w'"
      by (simp add: make_view_tags_handler_def dec st)
    from tag_kinds_independent [of 7 "PyInt 5" two_outputs w', THEN conjunct1, rule_format, OF run]
    obtain r decoded where r: "map_of (st_outputs two_outputs) 7 = Some r"
      and d: "decode_bitfields (PyInt 5) = Inr decoded"
      and upd: "\<forall>info. heap two_outputs r = Some info \<longrightarrow>
               (\<exists>info'. heap w' r = Some info' \<and> tags_view info' = decoded
                  \<and> tags_focused info' = tags_focused info \<and> tags_urgent info' = tags_urgent info
                  \<and> name info' = name info \<and> output info' = output info
                  \<and> status info' = status info)"
      and frame: "\<forall>r'. r' \<noteq> r \<longrightarrow> heap w' r' = heap two_outputs r'"
      by blast
    from r have r_eq: "r = 0" by (simp add: st)
    from d have d_eq: "decoded = [0, 2]" by (simp add: dec)
    from upd hp0 obtain info' where "heap w' 0 = Some info'" "tags_view info' = [0, 2]"
      "tags_focused info' = []" "tags_urgent info' = []"
      unfolding r_eq d_eq by fastforce
    moreover from frame have "heap w' 1 = heap two_outputs 1"
      unfolding r_eq by simp
    ultimately show ?thesis by (simp add: run)
  qed
  have f: "case make_focused_tags_handler 7 (PyInt 6) two_outputs of
        Inl e \<Rightarrow> False
      | Inr w' \<Rightarrow> map_option tags_focused (heap w' 0) = Some [1, 2]
          \<and> map_option tags_view (heap w' 0) = Some []
          \<and> map_option tags_urgent (heap w' 0) = Some []
          \<and> heap w' 1 = heap two_outputs 1"
  proof -
    have dec: "decode_bitfields (PyInt 6) = Inr [1, 2]" by code_simp
    obtain w' where run: "make_focused_tags_handler 7 (PyInt 6) two_outputs = Inr w'"
      by (simp add: make_focused_tags_handler_def dec st)
    from tag_kinds_independent [of 7 "PyInt 6" two_outputs w', THEN conjunct2, THEN conjunct1, rule_format, OF run]
    obtain r decoded where r: "map_of (st_outputs two_outputs) 7 = Some r"
      and d: "decode_bitfields (PyInt 6) = Inr decoded"
      and upd: "\<forall>info. heap two_outputs r = Some info \<longrightarrow>
               (\<exists>info'. heap w' r = Some info' \<and> tags_focused info' = decoded
                  \<and> tags_view info' = tags_view info \<and> tags_urgent info' = tags_urgent info
                  \<and> name info' = name info \<and> output info' = output info
                  \<and> status info' = status info)"
      and frame: "\<forall>r'. r' \<noteq> r \<longrightarrow> heap w' r' = heap two_outputs r'"
      by blast
    from r have r_eq: "r = 0" by (simp add: st)
    from d have d_eq: "decoded = [1, 2]" by (simp add: dec)
    from upd hp0 obtain info' where "heap w' 0 = Some info'" "tags_focused info' = [1, 2]"
      "tags_view info' = []" "tags_urgent info' = []"
      unfolding r_eq d_eq by fastforce
    moreover from frame have "heap w' 1 = heap two_outputs 1"
      unfolding r_eq by simp
    ultimately show ?thesis by (simp add: run)
  qed
  have u: "case make_urgent_tags_handler 8 (PyList [PyInt 1, PyInt 2]) two_outputs of
        Inl e \<Rightarrow> False
      | Inr w' \<Rightarrow> map_option tags_urgent (heap w' 1) = Some [0, 1]
          \<and> map_option tags_view (heap w' 1) = Some []
          \<and> map_option tags_focused (heap w' 1) = Some []
          \<and> heap w' 0 = heap two_outputs 0"
  proof -
    have dec: "decode_bitfields (PyList [PyInt 1, PyInt 2]) = Inr [0, 1]" by code_simp
    obtain w' where run: "make_urgent_tags_handler 8 (PyList [PyInt 1, PyInt 2]) two_outputs = Inr w'"
      by (simp add: make_urgent_tags_handler_def dec st)
    from tag_kinds_independent [of 8 "PyList [PyInt 1, PyInt 2]" two_outputs w', THEN conjunct2, THEN conjunct2, THEN conjunct1, rule_format, OF run]
    obtain r decoded where r: "map_of (st_outputs two_outputs) 8 = Some r"
      and d: "decode_bitfields (PyList [PyInt 1, PyInt 2]) = Inr decoded"
      and upd: "\<forall>info. heap two_outputs r = Some info \<longrightarrow>
               (\<exists>info'. heap w' r = Some info' \<and> tags_urgent info' = decoded
                  \<and> tags_view info' = tags_view info \<and> tags_focused info' = tags_focused info
                  \<and> name info' = name info \<and> output info' = output info
                  \<and> status info' = status info)"
      and frame: "\<forall>r'. r' \<noteq> r \<longrightarrow> heap w' r' = heap two_outputs r'"
      by blast
    from r have r_eq: "r = 1" by (simp add: st)
    from d have d_eq: "decoded = [0, 1]" by (simp add: dec)
    from upd hp1 obtain info' where "heap w' 1 = Some info'" "tags_urgent info' = [0, 1]"
      "tags_view info' = []" "tags_focused info' = []"
      unfolding r_eq d_eq by fastforce
    moreover from frame have "heap w' 0 = heap two_outputs 0"
      unfolding r_eq by simp
    ultimately show ?thesis by (simp add: run)
  qed
  have ok: "refs_ok two_outputs"
    by (simp add: refs_ok_def st two_outputs_def handle_global_def init_def)
  from ok v f u show ?thesis by blast
qed

end
